theory Spec2Isabelle
  imports Main "HOL-Library.AList"
begin

section \<open>Text: characters, lines and the catalog pattern\<close>

text \<open>
  Python strings are sequences of code points; the model uses \<^typ>\<open>string\<close>, so it covers
  the code points below 256. On that range the classes used by \<^verbatim>\<open>re\<close>, \<^verbatim>\<open>str.strip\<close> and
  \<^verbatim>\<open>str.splitlines\<close> are the ones below.
\<close>

definition isspace :: "char \<Rightarrow> bool" where
  \<comment> \<open>\<^verbatim>\<open>\s\<close> of a str pattern and the characters removed by \<^verbatim>\<open>str.strip()\<close>\<close>
  "isspace c = (c \<in> {CHR 0x09, CHR 0x0A, CHR 0x0B, CHR 0x0C, CHR 0x0D,
                     CHR 0x1C, CHR 0x1D, CHR 0x1E, CHR 0x1F, CHR 0x20, CHR 0x85, CHR 0xA0})"

definition isdigit :: "char \<Rightarrow> bool" where
  \<comment> \<open>\<^verbatim>\<open>\d\<close>\<close>
  "isdigit c = (let n = (of_char c :: nat) in 48 \<le> n \<and> n \<le> 57)"

definition is_AZ :: "char \<Rightarrow> bool" where
  \<comment> \<open>\<^verbatim>\<open>[A-Z]\<close>\<close>
  "is_AZ c = (let n = (of_char c :: nat) in 65 \<le> n \<and> n \<le> 90)"

definition dot :: "char \<Rightarrow> bool" where
  \<comment> \<open>\<^verbatim>\<open>.\<close> without DOTALL: anything but a newline\<close>
  "dot c = (c \<noteq> CHR 0x0A)"

definition linebreak :: "char \<Rightarrow> bool" where
  \<comment> \<open>the one-character line boundaries of \<^verbatim>\<open>str.splitlines\<close>\<close>
  "linebreak c = (c \<in> {CHR 0x0A, CHR 0x0B, CHR 0x0C, CHR 0x0D,
                       CHR 0x1C, CHR 0x1D, CHR 0x1E, CHR 0x85})"

definition strip :: "string \<Rightarrow> string" where
  "strip s = rev (dropWhile isspace (rev (dropWhile isspace s)))"

definition startswith :: "string \<Rightarrow> string \<Rightarrow> bool" where
  "startswith s p = (take (length p) s = p)"

definition endswith :: "string \<Rightarrow> string \<Rightarrow> bool" where
  "endswith s p = (length p \<le> length s \<and> drop (length s - length p) s = p)"

fun splitlines_from :: "string \<Rightarrow> string \<Rightarrow> string list" where
  "splitlines_from cur [] = (if cur = [] then [] else [cur])"
| "splitlines_from cur [c] = (if linebreak c then [cur] else [cur @ [c]])"
| "splitlines_from cur (c # d # cs) =
     (if c = CHR 0x0D \<and> d = CHR 0x0A then cur # splitlines_from [] cs
      else if linebreak c then cur # splitlines_from [] (d # cs)
      else splitlines_from (cur @ [c]) (d # cs))"

definition splitlines :: "string \<Rightarrow> string list" where
  "splitlines s = splitlines_from [] s"

subsection \<open>Backtracking matching\<close>

text \<open>
  A quantified character class offers its possible splits of the input in the order in
  which the backtracking matcher of \<^verbatim>\<open>re\<close> tries them: a greedy quantifier the longest
  first, a lazy one the shortest first. \<open>first_of\<close> continues with each split in turn and
  keeps the first one for which the rest of the pattern matches.
\<close>

definition greedy :: "(char \<Rightarrow> bool) \<Rightarrow> nat \<Rightarrow> string \<Rightarrow> (string \<times> string) list" where
  "greedy P lo s =
     map (\<lambda>k. (take k s, drop k s)) (rev [lo ..< Suc (length (takeWhile P s))])"

definition lazy :: "(char \<Rightarrow> bool) \<Rightarrow> nat \<Rightarrow> string \<Rightarrow> (string \<times> string) list" where
  "lazy P lo s =
     map (\<lambda>k. (take k s, drop k s)) [lo ..< Suc (length (takeWhile P s))]"

definition exactly :: "(char \<Rightarrow> bool) \<Rightarrow> nat \<Rightarrow> string \<Rightarrow> (string \<times> string) list" where
  "exactly P n s = (if n \<le> length (takeWhile P s) then [(take n s, drop n s)] else [])"

definition at_end :: "string \<Rightarrow> bool" where
  \<comment> \<open>\<^verbatim>\<open>$\<close>: at the end, or just before a final newline\<close>
  "at_end s = (s = [] \<or> s = [CHR 0x0A])"

fun first_of :: "('a \<Rightarrow> 'b option) \<Rightarrow> 'a list \<Rightarrow> 'b option" where
  "first_of f [] = None"
| "first_of f (x # xs) = (case f x of Some r \<Rightarrow> Some r | None \<Rightarrow> first_of f xs)"

text \<open>
  \<^verbatim>\<open>^\s*([A-Z]{2})\s+(.+?)\s{2,}(.+?)\s{2,}(\d+)\s*$\<close>, applied with \<^verbatim>\<open>match\<close>; the
  result is \<^verbatim>\<open>match.groups()\<close>. The parameter is the least length of the separator after
  the code: \<open>1\<close> in the source (\<^verbatim>\<open>\s+\<close>).
\<close>

definition pattern_with :: "nat \<Rightarrow> string \<Rightarrow> (string \<times> string \<times> string \<times> string) option" where
  "pattern_with sep1 line =
     first_of (\<lambda>(_, r0).
     first_of (\<lambda>(iso, r1).
     first_of (\<lambda>(_, r2).
     first_of (\<lambda>(country, r3).
     first_of (\<lambda>(_, r4).
     first_of (\<lambda>(city, r5).
     first_of (\<lambda>(_, r6).
     first_of (\<lambda>(ping, r7).
     first_of (\<lambda>(_, r8). if at_end r8 then Some (iso, country, city, ping) else None)
       (greedy isspace 0 r7))
       (greedy isdigit 1 r6))
       (greedy isspace 2 r5))
       (lazy dot 1 r4))
       (greedy isspace 2 r3))
       (lazy dot 1 r2))
       (greedy isspace sep1 r1))
       (exactly is_AZ 2 r0))
       (greedy isspace 0 line)"

definition location_pattern :: "string \<Rightarrow> (string \<times> string \<times> string \<times> string) option" where
  "location_pattern = pattern_with 1"

definition spec_location_pattern :: "string \<Rightarrow> (string \<times> string \<times> string \<times> string) option" where
  \<comment> \<open>the pattern as the specification words it: every separator is a run of two or more\<close>
  "spec_location_pattern = pattern_with 2"

text \<open>The lines a pattern accepts, said without the search order.\<close>

definition all_in :: "(char \<Rightarrow> bool) \<Rightarrow> string \<Rightarrow> bool" where
  "all_in P s = (\<forall>c \<in> set s. P c)"

definition location_line :: "nat \<Rightarrow> string \<Rightarrow> bool" where
  "location_line sep1 line =
     (\<exists>ws0 iso ws1 country ws2 city ws3 ping ws4 e.
        line = ws0 @ iso @ ws1 @ country @ ws2 @ city @ ws3 @ ping @ ws4 @ e \<and>
        all_in isspace ws0 \<and>
        length iso = 2 \<and> all_in is_AZ iso \<and>
        sep1 \<le> length ws1 \<and> all_in isspace ws1 \<and>
        1 \<le> length country \<and> all_in dot country \<and>
        2 \<le> length ws2 \<and> all_in isspace ws2 \<and>
        1 \<le> length city \<and> all_in dot city \<and>
        2 \<le> length ws3 \<and> all_in isspace ws3 \<and>
        1 \<le> length ping \<and> all_in isdigit ping \<and>
        all_in isspace ws4 \<and> at_end e)"

subsection \<open>Locations\<close>

record location =
  ISO :: string
  Country :: string
  City :: string
  Ping_Estimate :: string

definition make_location :: "string \<times> string \<times> string \<times> string \<Rightarrow> location" where
  "make_location g =
     (case g of (code, country, city, ping) \<Rightarrow>
        \<lparr>ISO = strip code, Country = strip country, City = strip city,
         Ping_Estimate = strip ping\<rparr>)"

fun parse_lines :: "string list \<Rightarrow> location list \<Rightarrow> location list" where
  \<comment> \<open>the \<^verbatim>\<open>for line in output.splitlines()\<close> loop of \<^verbatim>\<open>get_locations\<close>\<close>
  "parse_lines [] locations = locations"
| "parse_lines (line # rest) locations =
     (case location_pattern line of
        Some g \<Rightarrow> parse_lines rest (locations @ [make_location g])
      | None \<Rightarrow> parse_lines rest locations)"

section \<open>The world the script runs in\<close>

subsection \<open>Exceptions, log records and observable events\<close>

datatype exc =
    SystemExit nat
  | KeyboardInterrupt
  | CalledProcessError int
  | OtherError string

definition is_Exception :: "exc \<Rightarrow> bool" where
  \<comment> \<open>what \<^verbatim>\<open>except Exception\<close> catches\<close>
  "is_Exception e = (case e of SystemExit _ \<Rightarrow> False | KeyboardInterrupt \<Rightarrow> False | _ \<Rightarrow> True)"

datatype outcome = Returned | Raised exc

definition exit_code :: "outcome \<Rightarrow> nat" where
  \<comment> \<open>the exit status of the interpreter when \<^verbatim>\<open>main()\<close> ends this way\<close>
  "exit_code out =
     (case out of
        Returned \<Rightarrow> 0
      | Raised (SystemExit n) \<Rightarrow> n
      | Raised KeyboardInterrupt \<Rightarrow> 130
      | Raised _ \<Rightarrow> 1)"

datatype level = INFO | WARNING | ERROR | CRITICAL

text \<open>
  A log record is identified by its level and the line of the \<^verbatim>\<open>logging\<close> call in
  \<^verbatim>\<open>speedtest.py\<close> that emits it, and carries the strings interpolated into the message.
  Calls at level DEBUG are below the configured level and leave no record.
\<close>

datatype mstep = Construct | Get_servers | Get_best_server | Download | Upload | Results_dict

type_synonym dict = "(string \<times> string) list"

datatype event =
    Log level nat "string list"
  | Exec "string list"
  | Print_login_help
  | ProxyInstall
  | ProxyRevert
  | Speedtest mstep
  | WriteHeader "string list"
  | WriteRow dict "string list"
  | Flush

subsection \<open>Files and directories\<close>

datatype node = File string | Dir "(string \<times> node) list"

datatype csv_item = Row "string list" | Unreadable

text \<open>
  A result file is what \<^verbatim>\<open>csv.reader\<close> yields from it, row by row; \<open>Unreadable\<close> is the
  place where reading raises (a decoding error, a \<^verbatim>\<open>csv.Error\<close>, an I/O error). A file
  of size zero has no items.
\<close>

record csv_file =
  mtime :: nat
  content :: "csv_item list"

datatype sock = plain_socket | socksocket

record state =
  source_config :: "node option"
  dest_config :: "node option"
  dest_backup :: "node option"
  cwd :: "(string \<times> csv_file) list"
  RESULTS_CSV_FILE :: string
  socket_socket :: sock
  default_proxy :: "(string \<times> nat) option"
  calls :: nat

datatype proc_result = NotFound | Exited int string | Failed string | Interrupted

datatype measurement = Measured dict | Raises mstep exc | Raises_late dict exc

text \<open>
  What the measurement library does in one cycle. \<open>Measured d\<close>: every call returns and
  \<^verbatim>\<open>s.results.dict()\<close> is \<open>d\<close>, with numbers for download, upload and ping.
  \<open>Raises s e\<close>: the call \<open>s\<close> raises \<open>e\<close>, the calls before it return.
  \<open>Raises_late d e\<close>: every call returns and \<^verbatim>\<open>speed_results\<close> is assigned \<open>d\<close> at line 125,
  then lines 126 to 130 raise \<open>e\<close> (a \<^verbatim>\<open>TypeError\<close> when one of the three figures is not a
  number).
\<close>

datatype fault = Interrupt_at_start | Interrupt_after_backup | Copy_fails "(string \<times> node) list option"

text \<open>
  What the script cannot decide: who runs it, what each invocation of the external
  binary does (\<open>subprocess env n argv\<close> for the invocation after \<open>n\<close> earlier ones), what
  the measurement library does, and whether the acquisition of the configuration is cut
  short.
\<close>

record env =
  euid :: nat
  SUDO_USER :: "string option"
  TIMESTAMP :: string
  now :: nat
  subprocess :: "nat \<Rightarrow> string list \<Rightarrow> proc_result"
  speedtest :: "nat \<Rightarrow> measurement"
  fault :: "fault option"

definition ADGUARD_CLI_PATH :: string where
  "ADGUARD_CLI_PATH = ''/opt/adguardvpn_cli/adguardvpn-cli''"

definition SOCKS_HOST :: string where
  "SOCKS_HOST = ''127.0.0.1''"

definition SOCKS_PORT :: nat where
  "SOCKS_PORT = 1080"

definition initial_results_file :: "env \<Rightarrow> string" where
  "initial_results_file env = ''adguard_speedtest_results_'' @ TIMESTAMP env @ ''.csv''"

definition exists_file :: "state \<Rightarrow> string \<Rightarrow> bool" where
  "exists_file st name = (map_of (cwd st) name \<noteq> None)"

definition file_content :: "state \<Rightarrow> string \<Rightarrow> csv_item list" where
  "file_content st name = (case map_of (cwd st) name of Some f \<Rightarrow> content f | None \<Rightarrow> [])"

definition getmtime :: "state \<Rightarrow> string \<Rightarrow> nat" where
  "getmtime st name = (case map_of (cwd st) name of Some f \<Rightarrow> mtime f | None \<Rightarrow> 0)"

definition open_append :: "env \<Rightarrow> string \<Rightarrow> state \<Rightarrow> state" where
  \<comment> \<open>\<^verbatim>\<open>open(name, 'a')\<close> creates the file when it is missing\<close>
  "open_append env name st =
     (if exists_file st name then st
      else st\<lparr>cwd := cwd st @ [(name, \<lparr>mtime = now env, content = []\<rparr>)]\<rparr>)"

definition file_write :: "string \<Rightarrow> csv_item \<Rightarrow> state \<Rightarrow> state" where
  "file_write name item st =
     st\<lparr>cwd := map (\<lambda>(n, f). if n = name then (n, f\<lparr>content := content f @ [item]\<rparr>) else (n, f))
                  (cwd st)\<rparr>"

subsection \<open>Running the external binary\<close>

definition run_command ::
  "env \<Rightarrow> string list \<Rightarrow> bool \<Rightarrow> state \<Rightarrow> event list \<times> state \<times> (exc + string)" where
  "run_command env command check st =
     (let st' = st\<lparr>calls := Suc (calls st)\<rparr>;
          ev = [Log INFO 39 command, Exec command]
      in case subprocess env (calls st) command of
           NotFound \<Rightarrow>
             (ev @ [Log ERROR 48 (take 1 command)], st', Inl (SystemExit 1))
         | Exited rc out \<Rightarrow>
             if check \<and> rc \<noteq> 0
             then (ev @ [Log ERROR 51 command, Log ERROR 52 []], st',
                   Inl (CalledProcessError rc))
             else (ev, st', Inr out)
         | Failed e \<Rightarrow> (ev @ [Log ERROR 55 [e]], st', Inl (OtherError e))
         | Interrupted \<Rightarrow> (ev, st', Inl KeyboardInterrupt))"

section \<open>Location catalog\<close>

definition get_locations :: "env \<Rightarrow> state \<Rightarrow> event list \<times> state \<times> (exc + location list)" where
  "get_locations env st =
     (case run_command env [ADGUARD_CLI_PATH, ''list-locations''] True st of
        (ev, st1, Inl e) \<Rightarrow> (Log INFO 59 [] # ev, st1, Inl e)
      | (ev, st1, Inr output) \<Rightarrow>
          (let locations = parse_lines (splitlines output) []
           in if locations = []
              then (Log INFO 59 [] # ev @ [Log ERROR 69 []], st1, Inl (SystemExit 1))
              else (Log INFO 59 [] # ev @ [Log INFO 71 []],
                    st1, Inr locations)))"

section \<open>Result store: the resume set\<close>

definition is_result_file :: "string \<Rightarrow> bool" where
  "is_result_file f = (startswith f ''adguard_speedtest_results_'' \<and> endswith f ''.csv'')"

definition max_by :: "('a \<Rightarrow> nat) \<Rightarrow> 'a \<Rightarrow> 'a list \<Rightarrow> 'a" where
  \<comment> \<open>\<^verbatim>\<open>max(x :: xs, key=f)\<close>: the first of the greatest\<close>
  "max_by f x xs = fold (\<lambda>y best. if f best < f y then y else best) xs x"

definition row_dict :: "string list \<Rightarrow> string list \<Rightarrow> (string \<times> string option) list" where
  \<comment> \<open>the assignments \<^verbatim>\<open>csv.DictReader\<close> makes for one row, in order: the zipped fields,
      then \<^verbatim>\<open>None\<close> for the field names the row is too short for\<close>
  "row_dict fieldnames row =
     zip fieldnames (map Some row) @ map (\<lambda>k. (k, None)) (drop (length row) fieldnames)"

definition row_get :: "(string \<times> string option) list \<Rightarrow> string \<Rightarrow> string option option" where
  \<comment> \<open>a later assignment to a key replaces an earlier one\<close>
  "row_get d k = map_of (rev d) k"

definition iso_of_row :: "string list \<Rightarrow> string list \<Rightarrow> string option" where
  \<comment> \<open>\<^verbatim>\<open>row['ISO']\<close> when \<^verbatim>\<open>'ISO' in row and row['ISO']\<close>\<close>
  "iso_of_row fieldnames row =
     (case row_get (row_dict fieldnames row) ''ISO'' of
        Some (Some v) \<Rightarrow> if v \<noteq> [] then Some v else None
      | _ \<Rightarrow> None)"

fun read_rows :: "string list \<Rightarrow> csv_item list \<Rightarrow> string set \<Rightarrow> string set \<times> bool" where
  \<comment> \<open>\<^verbatim>\<open>for row in reader\<close> after the header; the flag says that reading raised\<close>
  "read_rows fieldnames [] tested_nodes = (tested_nodes, False)"
| "read_rows fieldnames (Unreadable # rest) tested_nodes = (tested_nodes, True)"
| "read_rows fieldnames (Row r # rest) tested_nodes =
     (if r = [] then read_rows fieldnames rest tested_nodes
      else (case iso_of_row fieldnames r of
              Some v \<Rightarrow> read_rows fieldnames rest (insert v tested_nodes)
            | None \<Rightarrow> read_rows fieldnames rest tested_nodes))"

definition read_tested :: "csv_item list \<Rightarrow> string set \<times> bool" where
  "read_tested items =
     (case items of
        [] \<Rightarrow> ({}, False)
      | Unreadable # _ \<Rightarrow> ({}, True)
      | Row fieldnames # rest \<Rightarrow> read_rows fieldnames rest {})"

definition load_tested_nodes :: "env \<Rightarrow> state \<Rightarrow> event list \<times> state \<times> string set" where
  "load_tested_nodes env st =
     (case filter is_result_file (map fst (cwd st)) of
        [] \<Rightarrow> ([Log INFO 78 []], st, {})
      | f # fs \<Rightarrow>
          (let latest_file = max_by (getmtime st) f fs;
               st1 = st\<lparr>RESULTS_CSV_FILE := latest_file\<rparr>;
               (tested_nodes, failed) = read_tested (file_content st latest_file)
           in (Log INFO 83 [latest_file] #
                 (if failed then [Log WARNING 92 []]
                  else [Log INFO 90 [latest_file]]),
               st1, tested_nodes)))"

section \<open>Measurement cycle\<close>

record writer =
  fieldnames :: "string list"
  is_new_file :: bool

definition location_dict :: "location \<Rightarrow> dict" where
  "location_dict l =
     [(''ISO'', ISO l), (''Country'', Country l), (''City'', City l),
      (''Ping Estimate'', Ping_Estimate l)]"

definition dict_merge :: "dict \<Rightarrow> dict \<Rightarrow> dict" where
  \<comment> \<open>\<^verbatim>\<open>{**a, **b}\<close>: a key keeps the place of its first insertion and takes its last value\<close>
  "dict_merge a b = fold (\<lambda>(k, v). AList.update k v) b a"

definition dict_get :: "dict \<Rightarrow> string \<Rightarrow> string" where
  \<comment> \<open>\<^verbatim>\<open>rowdict.get(key, '')\<close>\<close>
  "dict_get d k = (case map_of d k of Some v \<Rightarrow> v | None \<Rightarrow> [])"

definition shape :: "string list \<Rightarrow> dict \<Rightarrow> string list" where
  \<comment> \<open>the row \<^verbatim>\<open>csv.DictWriter\<close> writes for a dict, with \<^verbatim>\<open>extrasaction='ignore'\<close>\<close>
  "shape names d = map (dict_get d) names"

definition try_events :: "event list" where
  \<comment> \<open>lines 111 to 125 when nothing raises\<close>
  "try_events =
     [ProxyInstall, Log INFO 114 [], Speedtest Construct,
      Log INFO 117 [], Speedtest Get_servers, Speedtest Get_best_server,
      Log INFO 121 [], Speedtest Download, Speedtest Upload, Speedtest Results_dict]"

definition try_measure :: "measurement \<Rightarrow> string \<Rightarrow> event list \<times> dict \<times> exc option" where
  \<comment> \<open>the \<^verbatim>\<open>try\<close> block with its \<^verbatim>\<open>except Exception\<close>: the events, \<^verbatim>\<open>speed_results\<close>
      afterwards, and the exception still propagating, if any\<close>
  "try_measure m code =
     (case m of
        Measured d \<Rightarrow> (try_events @ [Log INFO 130 []], d, None)
      | Raises s e \<Rightarrow>
          (let ev = takeWhile (\<lambda>x. x \<noteq> Speedtest s) try_events @ [Speedtest s]
           in if is_Exception e then (ev @ [Log ERROR 133 [code]], [], None)
              else (ev, [], Some e))
      | Raises_late d e \<Rightarrow>
          if is_Exception e then (try_events @ [Log ERROR 133 [code]], d, None)
          else (try_events, d, Some e))"

definition write_result ::
  "location \<Rightarrow> dict \<Rightarrow> writer \<times> state \<Rightarrow> event list \<times> writer \<times> state" where
  \<comment> \<open>lines 146 to 152\<close>
  "write_result l speed_results ws =
     (case ws of (w, st) \<Rightarrow>
       (let full_result = dict_merge (location_dict l) speed_results;
            name = RESULTS_CSV_FILE st;
            (ev1, w1, st1) =
              (if is_new_file w
               then ([WriteHeader (map fst full_result)],
                     w\<lparr>fieldnames := map fst full_result, is_new_file := False\<rparr>,
                     file_write name (Row (map fst full_result)) st)
               else ([], w, st));
            row = shape (fieldnames w1) full_result
        in (ev1 @ [WriteRow full_result row, Log INFO 152 [name]],
            w1, file_write name (Row row) st1)))"

definition connect_argv :: "location \<Rightarrow> string list" where
  "connect_argv l = [ADGUARD_CLI_PATH, ''connect'', ''-l'', ISO l]"

definition disconnect_argv :: "string list" where
  "disconnect_argv = [ADGUARD_CLI_PATH, ''disconnect'']"

definition record_outcome ::
  "location \<Rightarrow> dict \<Rightarrow> exc option \<Rightarrow> exc + string \<Rightarrow> writer \<times> state \<Rightarrow>
   event list \<times> (writer \<times> state) \<times> outcome" where
  \<comment> \<open>how the cycle ends once the \<^verbatim>\<open>finally\<close> block has called \<^verbatim>\<open>disconnect\<close> with result
      \<open>r\<close>: an exception of the \<^verbatim>\<open>finally\<close> block propagates, else the one still pending
      does, else lines 143 to 152 run\<close>
  "record_outcome l speed_results pending r ws =
     (case r of
        Inl e \<Rightarrow> ([], ws, Raised e)
      | Inr _ \<Rightarrow>
          (case pending of
             Some e \<Rightarrow> ([], ws, Raised e)
           | None \<Rightarrow>
               if speed_results = [] then ([], ws, Returned)
               else (case write_result l speed_results ws of
                       (ev, w', st') \<Rightarrow> (ev, (w', st'), Returned))))"

definition test_and_record_speed ::
  "env \<Rightarrow> location \<Rightarrow> writer \<times> state \<Rightarrow> event list \<times> (writer \<times> state) \<times> outcome" where
  "test_and_record_speed env l ws =
     (case ws of (w, st) \<Rightarrow>
       (case run_command env (connect_argv l) True st of
          (ev1, st1, Inl (CalledProcessError rc)) \<Rightarrow>
            (Log INFO 97 [City l, Country l, ISO l] # ev1 @ [Log ERROR 102 [ISO l]],
             (w, st1), Returned)
        | (ev1, st1, Inl e) \<Rightarrow>
            (Log INFO 97 [City l, Country l, ISO l] # ev1, (w, st1), Raised e)
        | (ev1, st1, Inr _) \<Rightarrow>
            (let original_socket = socket_socket st1;
                 st2 = st1\<lparr>default_proxy := Some (SOCKS_HOST, SOCKS_PORT),
                           socket_socket := socksocket\<rparr>;
                 (ev2, speed_results, pending) = try_measure (speedtest env (calls st2)) (ISO l);
                 st3 = st2\<lparr>socket_socket := original_socket, default_proxy := None\<rparr>;
                 (ev3, st4, r) = run_command env disconnect_argv False st3;
                 (ev4, ws5, out) = record_outcome l speed_results pending r (w, st4)
             in (Log INFO 97 [City l, Country l, ISO l] # ev1 @ [Log INFO 100 [ISO l]] @
                 ev2 @ [ProxyRevert, Log INFO 140 [ISO l]] @ ev3 @ ev4, ws5, out))))"

definition via_proxy :: "state \<Rightarrow> bool" where
  \<comment> \<open>a connection opened now goes through a SOCKS proxy: \<^verbatim>\<open>socket.socket\<close> is the
      proxying class and a default proxy is set\<close>
  "via_proxy st = (socket_socket st = socksocket \<and> default_proxy st \<noteq> None)"

definition proxy_events :: "event list \<Rightarrow> event list" where
  "proxy_events ev = filter (\<lambda>x. x = ProxyInstall \<or> x = ProxyRevert) ev"

definition csv_writes :: "event list \<Rightarrow> event list" where
  "csv_writes ev =
     filter (\<lambda>x. case x of WriteHeader _ \<Rightarrow> True | WriteRow _ _ \<Rightarrow> True | _ \<Rightarrow> False) ev"

section \<open>Run controller\<close>

fun run_loop ::
  "env \<Rightarrow> string set \<Rightarrow> location list \<Rightarrow> writer \<times> state \<Rightarrow>
   event list \<times> (writer \<times> state) \<times> outcome" where
  \<comment> \<open>lines 213 to 219; the counter of \<^verbatim>\<open>enumerate\<close> only feeds the log text\<close>
  "run_loop env tested_nodes [] ws = ([], ws, Returned)"
| "run_loop env tested_nodes (l # rest) ws =
     (if ISO l \<in> tested_nodes
      then (case run_loop env tested_nodes rest ws of
              (ev, ws', out) \<Rightarrow> (Log INFO 215 [City l, ISO l] # ev, ws', out))
      else (case test_and_record_speed env l ws of
              (ev1, ws1, Raised e) \<Rightarrow> (Log INFO 217 [City l, ISO l] # ev1, ws1, Raised e)
            | (ev1, ws1, Returned) \<Rightarrow>
                (case run_loop env tested_nodes rest ws1 of
                   (ev2, ws2, out) \<Rightarrow>
                     (Log INFO 217 [City l, ISO l] # ev1 @ [Flush] @ ev2, ws2, out))))"

definition controller ::
  "env \<Rightarrow> location list \<Rightarrow> string set \<Rightarrow> state \<Rightarrow>
   event list \<times> (writer \<times> state) \<times> outcome" where
  \<comment> \<open>lines 197 to 219: the result file is opened, its header read, the locations visited\<close>
  "controller env all_locations tested_nodes st =
     (let name = RESULTS_CSV_FILE st;
          new = (\<not> exists_file st name \<or> file_content st name = []);
          st1 = open_append env name st;
          w = \<lparr>fieldnames = [], is_new_file = new\<rparr>
      in if new then
           (case run_loop env tested_nodes all_locations (w, st1) of
              (ev, ws, out) \<Rightarrow> (Log INFO 211 [] # ev, ws, out))
         else
           (case file_content st1 name of
              [] \<Rightarrow>
                (case run_loop env tested_nodes all_locations (w\<lparr>is_new_file := True\<rparr>, st1) of
                   (ev, ws, out) \<Rightarrow> (Log INFO 211 [] # ev, ws, out))
            | Row headers # _ \<Rightarrow>
                (case run_loop env tested_nodes all_locations (w\<lparr>fieldnames := headers\<rparr>, st1) of
                   (ev, ws, out) \<Rightarrow> (Log INFO 211 [] # ev, ws, out))
            | Unreadable # _ \<Rightarrow> ([], (w, st1), Raised (OtherError ''read''))))"

section \<open>Config custodian\<close>

fun copy_node :: "node \<Rightarrow> node"
  and copy_entries :: "(string \<times> node) list \<Rightarrow> (string \<times> node) list" where
  \<comment> \<open>\<^verbatim>\<open>shutil.copytree(..., ignore=shutil.ignore_patterns('*.socket'))\<close>\<close>
  "copy_node (File b) = File b"
| "copy_node (Dir es) = Dir (copy_entries es)"
| "copy_entries [] = []"
| "copy_entries (e # es) =
     (if endswith (fst e) ''.socket'' then copy_entries es
      else (fst e, copy_node (snd e)) # copy_entries es)"

definition shutil_move :: "node \<Rightarrow> string \<Rightarrow> node option \<Rightarrow> node option" where
  \<comment> \<open>\<^verbatim>\<open>shutil.move(src, dst)\<close> within one file system: what is at \<open>dst\<close> afterwards, or
      \<open>None\<close> when it raises and moves nothing. An existing directory \<open>dst\<close> receives
      \<open>src\<close> under its base name; an existing file is replaced by a file only.\<close>
  "shutil_move src base dst =
     (case dst of
        None \<Rightarrow> Some src
      | Some (Dir es) \<Rightarrow> if base \<in> fst ` set es then None else Some (Dir (es @ [(base, src)]))
      | Some (File b) \<Rightarrow> (case src of File _ \<Rightarrow> Some src | Dir _ \<Rightarrow> None))"

definition is_dir :: "node option \<Rightarrow> bool" where
  "is_dir p = (case p of Some (Dir _) \<Rightarrow> True | _ \<Rightarrow> False)"

definition acquire :: "env \<Rightarrow> string \<Rightarrow> state \<Rightarrow> event list \<times> state \<times> outcome" where
  \<comment> \<open>lines 180 to 190\<close>
  "acquire env original_user st =
     (if fault env = Some Interrupt_at_start then ([], st, Raised KeyboardInterrupt)
      else
       (case (case dest_config st of
                None \<Rightarrow> Some ([], st)
              | Some d \<Rightarrow>
                  (case shutil_move d ''adguardvpn-cli'' (dest_backup st) of
                     None \<Rightarrow> None
                   | Some b \<Rightarrow> Some ([Log INFO 182 []],
                                      st\<lparr>dest_config := None, dest_backup := Some b\<rparr>))) of
          None \<Rightarrow> ([Log INFO 180 [original_user], Log INFO 182 []], st,
                    Raised (OtherError ''move''))
        | Some (ev1, st1) \<Rightarrow>
            if fault env = Some Interrupt_after_backup
            then (Log INFO 180 [original_user] # ev1, st1, Raised KeyboardInterrupt)
            else if dest_config st1 \<noteq> None
            then (Log INFO 180 [original_user] # ev1 @ [Log INFO 185 []], st1,
                  Raised (OtherError ''copytree''))
            else
             (case (fault env, source_config st1) of
                (Some (Copy_fails left), _) \<Rightarrow>
                  (Log INFO 180 [original_user] # ev1 @ [Log INFO 185 []],
                   st1\<lparr>dest_config := map_option Dir left\<rparr>, Raised (OtherError ''copytree''))
              | (_, Some (Dir es)) \<Rightarrow>
                  (Log INFO 180 [original_user] # ev1 @ [Log INFO 185 []],
                   st1\<lparr>dest_config := Some (copy_node (Dir es))\<rparr>, Returned)
              | _ \<Rightarrow>
                  (Log INFO 180 [original_user] # ev1 @ [Log INFO 185 []], st1,
                   Raised (OtherError ''copytree'')))))"

definition release :: "state \<Rightarrow> event list \<times> state \<times> outcome" where
  \<comment> \<open>lines 226 to 232; \<^verbatim>\<open>shutil.rmtree\<close> raises on a path that is not a directory\<close>
  "release st =
     (case (case dest_config st of
              None \<Rightarrow> Some ([], st)
            | Some (Dir _) \<Rightarrow> Some ([Log INFO 228 []], st\<lparr>dest_config := None\<rparr>)
            | Some (File _) \<Rightarrow> None) of
        None \<Rightarrow> ([Log INFO 226 [], Log INFO 228 []], st, Raised (OtherError ''rmtree''))
      | Some (ev1, st1) \<Rightarrow>
          (case dest_backup st1 of
             None \<Rightarrow> (Log INFO 226 [] # ev1, st1, Returned)
           | Some b \<Rightarrow>
               (case shutil_move b ''adguardvpn-cli.bak'' (dest_config st1) of
                  None \<Rightarrow> (Log INFO 226 [] # ev1 @ [Log INFO 231 []], st1,
                            Raised (OtherError ''move''))
                | Some d \<Rightarrow>
                    (Log INFO 226 [] # ev1 @ [Log INFO 231 []],
                     st1\<lparr>dest_config := Some d, dest_backup := None\<rparr>, Returned))))"

section \<open>The run\<close>

definition main_body :: "env \<Rightarrow> string \<Rightarrow> state \<Rightarrow> event list \<times> state \<times> outcome" where
  \<comment> \<open>the \<^verbatim>\<open>try\<close> block of \<^verbatim>\<open>main\<close>, lines 180 to 219\<close>
  "main_body env original_user st =
     (case acquire env original_user st of
        (ev1, st1, Raised e) \<Rightarrow> (ev1, st1, Raised e)
      | (ev1, st1, Returned) \<Rightarrow>
          (case run_command env [ADGUARD_CLI_PATH, ''config'', ''set-mode'', ''socks''] True st1 of
             (ev2, st2, Inl e) \<Rightarrow> (ev1 @ Log INFO 192 [] # ev2, st2, Raised e)
           | (ev2, st2, Inr _) \<Rightarrow>
               (case get_locations env st2 of
                  (ev3, st3, Inl e) \<Rightarrow> (ev1 @ Log INFO 192 [] # ev2 @ ev3, st3, Raised e)
                | (ev3, st3, Inr all_locations) \<Rightarrow>
                    (case load_tested_nodes env st3 of
                       (ev4, st4, tested_nodes) \<Rightarrow>
                         (case controller env all_locations tested_nodes st4 of
                            (ev5, (w, st5), out) \<Rightarrow>
                              (ev1 @ Log INFO 192 [] # ev2 @ ev3 @ ev4 @ ev5, st5, out))))))"

definition handlers :: "outcome \<Rightarrow> event list" where
  \<comment> \<open>the two \<^verbatim>\<open>except\<close> clauses of \<^verbatim>\<open>main\<close>: whatever the body raised is logged and
      dropped\<close>
  "handlers out =
     (case out of
        Returned \<Rightarrow> []
      | Raised e \<Rightarrow> if is_Exception e then [Log CRITICAL 224 []] else [Log WARNING 222 []])"

definition cleanup :: "env \<Rightarrow> state \<Rightarrow> event list \<times> state \<times> outcome" where
  \<comment> \<open>the \<^verbatim>\<open>finally\<close> block of \<^verbatim>\<open>main\<close>\<close>
  "cleanup env st =
     (case release st of
        (ev1, st1, Raised e) \<Rightarrow> (ev1, st1, Raised e)
      | (ev1, st1, Returned) \<Rightarrow>
          (case run_command env disconnect_argv False st1 of
             (ev2, st2, Inl e) \<Rightarrow> (ev1 @ Log INFO 234 [] # ev2, st2, Raised e)
           | (ev2, st2, Inr _) \<Rightarrow> (ev1 @ Log INFO 234 [] # ev2 @ [Log INFO 236 []], st2, Returned)))"

definition main :: "env \<Rightarrow> state \<Rightarrow> event list \<times> state \<times> outcome" where
  "main env st =
     (if euid env \<noteq> 0
      then ([Log INFO 157 [], Log ERROR 160 []], st, Raised (SystemExit 1))
      else case SUDO_USER env of
        None \<Rightarrow> ([Log INFO 157 [], Log ERROR 165 []], st, Raised (SystemExit 1))
      | Some original_user \<Rightarrow>
          if original_user = []
          then ([Log INFO 157 [], Log ERROR 165 []], st, Raised (SystemExit 1))
          else if \<not> is_dir (source_config st)
          then ([Log INFO 157 [], Log ERROR 173 [], Print_login_help], st, Raised (SystemExit 1))
          else
           (case main_body env original_user st of
              (ev1, st1, out1) \<Rightarrow>
                (case cleanup env st1 of
                   (ev2, st2, out2) \<Rightarrow>
                     (Log INFO 157 [] # ev1 @ handlers out1 @ ev2, st2, out2))))"

definition initial_state ::
  "env \<Rightarrow> node option \<Rightarrow> node option \<Rightarrow> node option \<Rightarrow> (string \<times> csv_file) list \<Rightarrow> state" where
  \<comment> \<open>the state of the process when \<^verbatim>\<open>main()\<close> is called, for a given file system\<close>
  "initial_state env src dst bak files =
     \<lparr>source_config = src, dest_config = dst, dest_backup = bak, cwd = files,
      RESULTS_CSV_FILE = initial_results_file env,
      socket_socket = plain_socket, default_proxy = None, calls = 0\<rparr>"

definition custody :: "state \<Rightarrow> node option \<times> node option \<times> node option" where
  \<comment> \<open>what is at the three paths the custodian works on\<close>
  "custody st = (source_config st, dest_config st, dest_backup st)"

definition is_file :: "node option \<Rightarrow> bool" where
  "is_file p = (case p of Some (File _) \<Rightarrow> True | _ \<Rightarrow> False)"

section \<open>The resume set, said from the rows\<close>

text \<open>
  The rows that can be read from a file, up to the first place where reading raises; the
  first of them is the header. A row gives the value \<open>v\<close> when \<open>v\<close> is not empty and stands
  in the row under the column named ISO (the last such column, as a later assignment to a
  key of the row's dict replaces an earlier one).
\<close>

fun readable_rows :: "csv_item list \<Rightarrow> string list list" where
  "readable_rows [] = []"
| "readable_rows (Unreadable # _) = []"
| "readable_rows (Row r # rest) = r # readable_rows rest"

definition iso_value :: "string list \<Rightarrow> string list \<Rightarrow> string \<Rightarrow> bool" where
  "iso_value h r v =
     (v \<noteq> [] \<and>
      (\<exists>i < length h. h ! i = ''ISO'' \<and> (\<forall>j. i < j \<and> j < length h \<longrightarrow> h ! j \<noteq> ''ISO'') \<and>
                       i < length r \<and> r ! i = v))"

definition iso_values :: "csv_item list \<Rightarrow> string set" where
  "iso_values items =
     (case readable_rows items of
        [] \<Rightarrow> {}
      | h # rows \<Rightarrow> {v. \<exists>r \<in> set rows. iso_value h r v})"

section \<open>Concrete worlds\<close>

text \<open>Inputs on which the definitions above are evaluated further down.\<close>

definition sample_output :: string where
  "sample_output =
     ''ISO  Country  City  Ping'' @ [CHR 0x0A] @
     ''US   United States        New York            12'' @ [CHR 0x0A]"

definition sample_location :: location where
  "sample_location =
     \<lparr>ISO = ''US'', Country = ''United States'', City = ''New York'', Ping_Estimate = ''12''\<rparr>"

definition quiet_env :: env where
  \<comment> \<open>run by root through sudo; every invocation of the binary exits with 0 and prints
      nothing; every measurement fails at once\<close>
  "quiet_env =
     \<lparr>euid = 0, SUDO_USER = Some ''alice'', TIMESTAMP = ''20240101_000000'', now = 0,
      subprocess = (\<lambda>n argv. Exited 0 []),
      speedtest = (\<lambda>n. Raises Construct (OtherError ''ConfigRetrievalError'')),
      fault = None\<rparr>"

definition sample_env :: env where
  \<comment> \<open>as \<open>quiet_env\<close>, with a catalog of one location\<close>
  "sample_env =
     quiet_env\<lparr>subprocess := (\<lambda>n argv.
        if argv = [ADGUARD_CLI_PATH, ''list-locations''] then Exited 0 sample_output
        else Exited 0 [])\<rparr>"

definition home_config :: node where
  "home_config = Dir [(''vpn.conf'', File ''alice''), (''daemon.socket'', File [])]"


definition berlin_location :: location where
  "berlin_location =
     \<lparr>ISO = ''DE'', Country = ''Germany'', City = ''Berlin'', Ping_Estimate = ''20''\<rparr>"

definition unplugged_env :: env where
  \<comment> \<open>as \<open>quiet_env\<close>, but starting the \<^verbatim>\<open>disconnect\<close> process raises an \<^verbatim>\<open>OSError\<close>\<close>
  "unplugged_env =
     quiet_env\<lparr>subprocess := (\<lambda>n argv.
        if argv = [ADGUARD_CLI_PATH, ''disconnect''] then Failed ''OSError''
        else Exited 0 [])\<rparr>"

definition impatient_env :: env where
  \<comment> \<open>as \<open>quiet_env\<close>, with Ctrl-C arriving during every download\<close>
  "impatient_env = quiet_env\<lparr>speedtest := (\<lambda>n. Raises Download KeyboardInterrupt)\<rparr>"

definition fresh_writer :: writer where
  "fresh_writer = \<lparr>fieldnames = [], is_new_file = True\<rparr>"

definition sample_state :: state where
  \<comment> \<open>no configuration of root, no backup, an empty working directory\<close>
  "sample_state = initial_state sample_env (Some home_config) None None []"

definition written_item :: "event \<Rightarrow> csv_item" where
  \<comment> \<open>the line a write event adds to the result file\<close>
  "written_item e = (case e of WriteHeader h \<Rightarrow> Row h | WriteRow d r \<Rightarrow> Row r | _ \<Rightarrow> Row [])"

definition rows_shaped :: "string list \<Rightarrow> event list \<Rightarrow> bool" where
  \<comment> \<open>every event is the writing of a record as a row with the columns \<open>h\<close>\<close>
  "rows_shaped h es = (\<forall>e \<in> set es. \<exists>d. e = WriteRow d (shape h d))"

definition measuring_env :: env where
  \<comment> \<open>as \<open>sample_env\<close>, with measurements that succeed\<close>
  "measuring_env =
     sample_env\<lparr>speedtest := (\<lambda>n.
        Measured [(''download'', ''1''), (''upload'', ''2''), (''ping'', ''3'')])\<rparr>"

definition resumed_state :: state where
  \<comment> \<open>as \<open>sample_state\<close>, with an active result file that has a header of two columns\<close>
  "resumed_state =
     sample_state\<lparr>cwd := [(''adguard_speedtest_results_20240101_000000.csv'',
                              \<lparr>mtime = 0, content = [Row [''ISO'', ''download'']]\<rparr>)]\<rparr>"

definition history_state :: state where
  \<comment> \<open>a working directory with two earlier result files; the newer one can be read up to
      its third line\<close>
  "history_state =
     \<lparr>source_config = None, dest_config = None, dest_backup = None,
      cwd = [(''adguard_speedtest_results_20231230_000000.csv'',
                \<lparr>mtime = 3, content = [Row [''ISO''], Row [''FR'']]\<rparr>),
             (''notes.txt'', \<lparr>mtime = 9, content = []\<rparr>),
             (''adguard_speedtest_results_20231231_000000.csv'',
                \<lparr>mtime = 5,
                 content = [Row [''ISO'', ''Country''], Row [''US'', ''United States''],
                            Unreadable, Row [''DE'', ''Germany'']]\<rparr>)],
      RESULTS_CSV_FILE = ''adguard_speedtest_results_20240101_000000.csv'',
      socket_socket = plain_socket, default_proxy = None, calls = 2\<rparr>"

definition clean_history_state :: state where
  \<comment> \<open>one earlier result file, readable to its end, with a blank line and a row whose code
      is empty\<close>
  "clean_history_state =
     history_state\<lparr>cwd :=
       [(''adguard_speedtest_results_20231231_000000.csv'',
           \<lparr>mtime = 5,
            content = [Row [''ISO'', ''Country''], Row [''US'', ''United States''], Row [],
                       Row [[], ''Nowhere''], Row [''DE'']]\<rparr>)]\<rparr>"

definition root_config :: node where
  "root_config = Dir [(''vpn.conf'', File ''root'')]"

definition crashing_env :: env where
  \<comment> \<open>as \<open>sample_env\<close>, but starting the \<^verbatim>\<open>connect\<close> process raises an \<^verbatim>\<open>OSError\<close>\<close>
  "crashing_env =
     quiet_env\<lparr>subprocess := (\<lambda>n argv.
        if argv = [ADGUARD_CLI_PATH, ''list-locations''] then Exited 0 sample_output
        else if take 2 argv = [ADGUARD_CLI_PATH, ''connect''] then Failed ''PermissionError''
        else Exited 0 [])\<rparr>"

definition interrupted_env :: env where
  \<comment> \<open>as \<open>sample_env\<close>, with Ctrl-C arriving as the \<^verbatim>\<open>try\<close> block of \<^verbatim>\<open>main\<close> begins\<close>
  "interrupted_env = sample_env\<lparr>fault := Some Interrupt_at_start\<rparr>"

section \<open>Properties of the catalog pattern\<close>

lemma first_of_None: "first_of f xs = None \<longleftrightarrow> (\<forall>x\<in>set xs. f x = None)"
  by (induction xs) (auto split: option.splits)

lemma first_of_matches: "first_of f xs \<noteq> None \<longleftrightarrow> (\<exists>x\<in>set xs. f x \<noteq> None)"
  by (simp add: first_of_None)

lemma prefix_within_takeWhile:
  "k \<le> length (takeWhile P s) \<longleftrightarrow> k \<le> length s \<and> all_in P (take k s)"
proof (induction s arbitrary: k)
  case Nil
  then show ?case by (simp add: all_in_def)
next
  case (Cons x xs)
  show ?case
  proof (cases k)
    case 0
    then show ?thesis by (simp add: all_in_def)
  next
    case (Suc j)
    then show ?thesis using Cons.IH [of j] by (simp add: all_in_def)
  qed
qed

lemma splits_between:
  "(\<lambda>k. (take k s, drop k s)) ` {k. lo \<le> k \<and> k \<le> length (takeWhile P s)} =
   {(p, r). s = p @ r \<and> lo \<le> length p \<and> all_in P p}"
proof (rule set_eqI, rule iffI)
  fix x assume "x \<in> (\<lambda>k. (take k s, drop k s)) ` {k. lo \<le> k \<and> k \<le> length (takeWhile P s)}"
  then obtain k where k: "x = (take k s, drop k s)" "lo \<le> k" "k \<le> length (takeWhile P s)"
    by auto
  from k(3) have "k \<le> length s" "all_in P (take k s)"
    by (simp_all add: prefix_within_takeWhile)
  with k show "x \<in> {(p, r). s = p @ r \<and> lo \<le> length p \<and> all_in P p}"
    by simp
next
  fix x assume "x \<in> {(p, r). s = p @ r \<and> lo \<le> length p \<and> all_in P p}"
  then obtain p r where x: "x = (p, r)" "s = p @ r" "lo \<le> length p" "all_in P p"
    by auto
  then have "length p \<le> length (takeWhile P s)"
    by (simp add: prefix_within_takeWhile)
  with x show "x \<in> (\<lambda>k. (take k s, drop k s)) ` {k. lo \<le> k \<and> k \<le> length (takeWhile P s)}"
    by (auto simp: image_iff intro!: exI [of _ "length p"])
qed

lemma set_greedy: "set (greedy P lo s) = {(p, r). s = p @ r \<and> lo \<le> length p \<and> all_in P p}"
proof -
  have "set (greedy P lo s) = (\<lambda>k. (take k s, drop k s)) ` {k. lo \<le> k \<and> k \<le> length (takeWhile P s)}"
    by (auto simp: greedy_def)
  then show ?thesis by (simp only: splits_between)
qed

lemma set_lazy: "set (lazy P lo s) = {(p, r). s = p @ r \<and> lo \<le> length p \<and> all_in P p}"
proof -
  have "set (lazy P lo s) = (\<lambda>k. (take k s, drop k s)) ` {k. lo \<le> k \<and> k \<le> length (takeWhile P s)}"
    by (auto simp: lazy_def)
  then show ?thesis by (simp only: splits_between)
qed

lemma set_exactly: "set (exactly P n s) = {(p, r). s = p @ r \<and> length p = n \<and> all_in P p}"
proof -
  have "set (exactly P n s) = (\<lambda>k. (take k s, drop k s)) ` {k. n \<le> k \<and> k \<le> length (takeWhile P s)} \<inter> {(p, r). length p = n}"
    by (auto simp: exactly_def prefix_within_takeWhile)
  then show ?thesis by (auto simp only: splits_between)
qed

lemma some_greedy:
  "(\<exists>x\<in>set (greedy P lo s). Q x) \<longleftrightarrow> (\<exists>p r. s = p @ r \<and> lo \<le> length p \<and> all_in P p \<and> Q (p, r))"
  by (auto simp: set_greedy)

lemma some_lazy:
  "(\<exists>x\<in>set (lazy P lo s). Q x) \<longleftrightarrow> (\<exists>p r. s = p @ r \<and> lo \<le> length p \<and> all_in P p \<and> Q (p, r))"
  by (auto simp: set_lazy)

lemma some_exactly:
  "(\<exists>x\<in>set (exactly P n s). Q x) \<longleftrightarrow> (\<exists>p r. s = p @ r \<and> length p = n \<and> all_in P p \<and> Q (p, r))"
  by (auto simp: set_exactly)

lemma pattern_with_nested:
  "pattern_with sep1 line \<noteq> None \<longleftrightarrow>
   (\<exists>ws0 r0. line = ws0 @ r0 \<and> all_in isspace ws0 \<and>
   (\<exists>code r1. r0 = code @ r1 \<and> length code = 2 \<and> all_in is_AZ code \<and>
   (\<exists>ws1 r2. r1 = ws1 @ r2 \<and> sep1 \<le> length ws1 \<and> all_in isspace ws1 \<and>
   (\<exists>country r3. r2 = country @ r3 \<and> 1 \<le> length country \<and> all_in dot country \<and>
   (\<exists>ws2 r4. r3 = ws2 @ r4 \<and> 2 \<le> length ws2 \<and> all_in isspace ws2 \<and>
   (\<exists>city r5. r4 = city @ r5 \<and> 1 \<le> length city \<and> all_in dot city \<and>
   (\<exists>ws3 r6. r5 = ws3 @ r6 \<and> 2 \<le> length ws3 \<and> all_in isspace ws3 \<and>
   (\<exists>ping r7. r6 = ping @ r7 \<and> 1 \<le> length ping \<and> all_in isdigit ping \<and>
   (\<exists>ws4 r8. r7 = ws4 @ r8 \<and> all_in isspace ws4 \<and> at_end r8)))))))))"
  unfolding pattern_with_def
  apply (simp only: first_of_matches some_greedy some_lazy some_exactly split_conv)
  apply (simp only: le0 simp_thms)
  apply (simp only: if_split [of "\<lambda>x. x \<noteq> None"] option.simps simp_thms)
  done

lemma pattern_with_matches: "pattern_with sep1 line \<noteq> None \<longleftrightarrow> location_line sep1 line"
  unfolding pattern_with_nested location_line_def
  apply (rule iffI)
   apply (elim exE conjE)
   apply hypsubst
   apply (intro exI conjI)
                     apply (rule refl)
                    apply assumption+
  apply (elim exE conjE)
  apply hypsubst
  apply (intro exI conjI)
                      apply (rule refl | assumption)+
  done

lemma parse_lines_acc:
  "parse_lines lines acc =
   acc @ List.map_filter (\<lambda>l. map_option make_location (location_pattern l)) lines"
  by (induction lines arbitrary: acc) (auto simp: List.map_filter_simps split: option.splits)

lemma sample_lines:
  "splitlines sample_output =
   [''ISO  Country  City  Ping'', ''US   United States        New York            12'']"
  by code_simp

lemma sample_header: "location_pattern ''ISO  Country  City  Ping'' = None"
  by code_simp

lemma sample_match:
  "map_option make_location
     (location_pattern ''US   United States        New York            12'') =
   Some sample_location"
  by code_simp

lemma sample_parsed:
  "List.map_filter (\<lambda>l. map_option make_location (location_pattern l))
     (splitlines sample_output) = [sample_location]"
  by (simp add: sample_lines List.map_filter_simps sample_header sample_match)

lemma get_locations_result:
  assumes "subprocess env (calls st) [ADGUARD_CLI_PATH, ''list-locations''] = Exited 0 output"
  shows "get_locations env st =
           (let found = parse_lines (splitlines output) [];
                ev = [Log INFO 59 [], Log INFO 39 [ADGUARD_CLI_PATH, ''list-locations''],
                      Exec [ADGUARD_CLI_PATH, ''list-locations'']];
                st1 = st\<lparr>calls := Suc (calls st)\<rparr>
            in if found = [] then (ev @ [Log ERROR 69 []], st1, Inl (SystemExit 1))
               else (ev @ [Log INFO 71 []], st1, Inr found))"
  using assms by (simp add: get_locations_def run_command_def Let_def)

text \<open>
  C5, as the code has it. When the \<^verbatim>\<open>list-locations\<close> command succeeds, the catalog is
  the list of the locations of the matching output lines, one for each, in the order of
  the output, and the other lines are skipped; an empty list ends the run with
  \<^verbatim>\<open>sys.exit(1)\<close>. A line matches when it is: optional whitespace, two capitals, one or
  more whitespace characters, a country, two or more whitespace characters, a city, two or
  more whitespace characters, digits, optional whitespace. The sample line and the header
  line of the specification give exactly the location (US, United States, New York, 12).
\<close>

theorem catalog_parse:
  assumes "subprocess env (calls st) [ADGUARD_CLI_PATH, ''list-locations''] = Exited 0 output"
  shows "snd (snd (get_locations env st)) =
           (case List.map_filter (\<lambda>l. map_option make_location (location_pattern l))
                   (splitlines output) of
              [] \<Rightarrow> Inl (SystemExit 1)
            | l # ls \<Rightarrow> Inr (l # ls))
         \<and> (\<forall>line. location_pattern line \<noteq> None \<longleftrightarrow> location_line 1 line)
         \<and> parse_lines (splitlines sample_output) [] = [sample_location]"
proof (intro conjI)
  show "snd (snd (get_locations env st)) =
           (case List.map_filter (\<lambda>l. map_option make_location (location_pattern l))
                   (splitlines output) of
              [] \<Rightarrow> Inl (SystemExit 1)
            | l # ls \<Rightarrow> Inr (l # ls))"
    by (simp add: get_locations_result [OF assms] parse_lines_acc Let_def split: list.splits)
  show "\<forall>line. location_pattern line \<noteq> None \<longleftrightarrow> location_line 1 line"
    unfolding location_pattern_def by (rule allI, rule pattern_with_matches)
  show "parse_lines (splitlines sample_output) [] = [sample_location]"
    by (simp add: parse_lines_acc sample_parsed)
qed

theorem catalog_parse_witness:
  "snd (snd (get_locations sample_env (initial_state sample_env (Some home_config) None None [])))
   = Inr [sample_location]"
proof -
  have h: "subprocess sample_env (calls (initial_state sample_env (Some home_config) None None []))
             [ADGUARD_CLI_PATH, ''list-locations''] = Exited 0 sample_output"
    by (simp add: sample_env_def)
  from catalog_parse [OF h] show ?thesis
    by (simp add: sample_parsed)
qed

theorem catalog_parse_counterexample:
  "spec_location_pattern ''US United States  New York  12'' = None \<and>
   parse_lines [''US United States  New York  12''] [] = [sample_location]"
  by code_simp

section \<open>Properties of the measurement cycle\<close>

lemma proxy_events_append [simp]: "proxy_events (a @ b) = proxy_events a @ proxy_events b"
  by (simp add: proxy_events_def)

lemma csv_writes_append [simp]: "csv_writes (a @ b) = csv_writes a @ csv_writes b"
  by (simp add: csv_writes_def)

lemma run_command_frame:
  assumes "run_command env c chk st = (ev, st', r)"
  shows "st' = st\<lparr>calls := Suc (calls st)\<rparr>" and "proxy_events ev = []" and "csv_writes ev = []"
  using assms
  by (auto simp: run_command_def Let_def proxy_events_def csv_writes_def
           split: proc_result.splits if_splits)

lemma run_command_exited:
  assumes "subprocess env (calls st) c = Exited rc out" and "chk \<longrightarrow> rc = 0"
  shows "run_command env c chk st = ([Log INFO 39 c, Exec c], st\<lparr>calls := Suc (calls st)\<rparr>, Inr out)"
  using assms by (auto simp: run_command_def)

lemma try_measure_proxy: "proxy_events (fst (try_measure m code)) = [ProxyInstall]"
proof (cases m)
  case (Measured d)
  then show ?thesis by (simp add: try_measure_def try_events_def proxy_events_def)
next
  case (Raises s e)
  then show ?thesis
    by (cases s) (simp_all add: try_measure_def try_events_def proxy_events_def Let_def)
next
  case (Raises_late d e)
  then show ?thesis by (simp add: try_measure_def try_events_def proxy_events_def)
qed

lemma try_measure_writes: "csv_writes (fst (try_measure m code)) = []"
proof (cases m)
  case (Measured d)
  then show ?thesis by (simp add: try_measure_def try_events_def csv_writes_def)
next
  case (Raises s e)
  then show ?thesis
    by (cases s) (simp_all add: try_measure_def try_events_def csv_writes_def Let_def)
next
  case (Raises_late d e)
  then show ?thesis by (simp add: try_measure_def try_events_def csv_writes_def)
qed

lemma try_measure_raises:
  assumes "try_measure (Raises s e) code = (ev, speed_results, pending)"
  shows "speed_results = []" and "pending = (if is_Exception e then None else Some e)"
    and "Log ERROR 133 [code] \<in> set ev \<longleftrightarrow> is_Exception e"
  using assms
  by (cases s; auto simp: try_measure_def try_events_def Let_def split: if_splits)+

lemma try_measure_raises_late:
  assumes "is_Exception e"
  shows "try_measure (Raises_late d e) code = (try_events @ [Log ERROR 133 [code]], d, None)"
  using assms by (simp add: try_measure_def)

lemma run_command_result:
  assumes "run_command env c False st = (ev, st', r)"
  shows "r = (case subprocess env (calls st) c of
                NotFound \<Rightarrow> Inl (SystemExit 1)
              | Exited rc out \<Rightarrow> Inr out
              | Failed x \<Rightarrow> Inl (OtherError x)
              | Interrupted \<Rightarrow> Inl KeyboardInterrupt)"
    and "Log ERROR 133 a \<notin> set ev"
  using assms by (auto simp: run_command_def Let_def split: proc_result.splits)

lemma write_result_frame:
  assumes "write_result l d (w, st) = (ev, w', st')"
  shows "socket_socket st' = socket_socket st" and "default_proxy st' = default_proxy st"
    and "calls st' = calls st" and "proxy_events ev = []"
    and "RESULTS_CSV_FILE st' = RESULTS_CSV_FILE st"
  using assms
  by (auto simp: write_result_def Let_def file_write_def proxy_events_def split: if_splits)

lemma record_outcome_frame:
  assumes "record_outcome l d p r (w, st) = (ev, (w', st'), out)"
  shows "socket_socket st' = socket_socket st" and "default_proxy st' = default_proxy st"
    and "calls st' = calls st" and "proxy_events ev = []"
    and "RESULTS_CSV_FILE st' = RESULTS_CSV_FILE st"
  using assms write_result_frame [of l d w st]
  by (auto simp: record_outcome_def proxy_events_def split: sum.splits option.splits if_splits prod.splits)


lemma cycle_connected:
  assumes "subprocess env (calls st) (connect_argv l) = Exited 0 out"
  shows "test_and_record_speed env l (w, st) =
     (case try_measure (speedtest env (Suc (calls st))) (ISO l) of
        (ev2, speed_results, pending) \<Rightarrow>
     (case run_command env disconnect_argv False
             (st\<lparr>calls := Suc (calls st), default_proxy := None\<rparr>) of
        (ev3, st4, r) \<Rightarrow>
     (case record_outcome l speed_results pending r (w, st4) of
        (ev4, ws5, out) \<Rightarrow>
          ([Log INFO 97 [City l, Country l, ISO l], Log INFO 39 (connect_argv l),
            Exec (connect_argv l), Log INFO 100 [ISO l]] @
           ev2 @ [ProxyRevert, Log INFO 140 [ISO l]] @ ev3 @ ev4, ws5, out))))"
  by (simp add: test_and_record_speed_def run_command_exited [OF assms] Let_def)

lemma run_loop_continues:
  assumes "ISO l \<notin> tested" and "test_and_record_speed env l ws = (ev, ws', Returned)"
  shows "snd (run_loop env tested (l # rest) ws) = snd (run_loop env tested rest ws')"
  using assms by (simp split: prod.splits)

text \<open>
  C3. Whenever the connect step of a cycle succeeds, the cycle ends with
  \<^verbatim>\<open>socket.socket\<close> set back to the value it had when the cycle began and with no default
  proxy, whether the measurement succeeded or raised and whatever the disconnect did; the
  proxy is installed once and reverted after that. No connection made afterwards goes
  through the proxy, and a state that was not proxied before the cycle is restored exactly.
\<close>

theorem proxy_reverted:
  assumes connect: "subprocess env (calls st) (connect_argv l) = Exited 0 out"
    and run: "test_and_record_speed env l (w, st) = (ev, (w', st'), res)"
  shows "socket_socket st' = socket_socket st \<and> default_proxy st' = None \<and>
         \<not> via_proxy st' \<and>
         proxy_events ev = [ProxyInstall, ProxyRevert] \<and>
         (default_proxy st = None \<longrightarrow>
            (socket_socket st', default_proxy st') = (socket_socket st, default_proxy st))"
proof -
  obtain ev2 sr p where m: "try_measure (speedtest env (Suc (calls st))) (ISO l) = (ev2, sr, p)"
    by (cases "try_measure (speedtest env (Suc (calls st))) (ISO l)") auto
  obtain ev3 st4 r where d: "run_command env disconnect_argv False
                            (st\<lparr>calls := Suc (calls st), default_proxy := None\<rparr>) = (ev3, st4, r)"
    by (cases "run_command env disconnect_argv False
                 (st\<lparr>calls := Suc (calls st), default_proxy := None\<rparr>)") auto
  obtain ev4 w5 st5 out5 where ro: "record_outcome l sr p r (w, st4) = (ev4, (w5, st5), out5)"
    by (cases "record_outcome l sr p r (w, st4)") auto
  have e2: "proxy_events ev2 = [ProxyInstall]"
    using try_measure_proxy [of "speedtest env (Suc (calls st))" "ISO l"] m by simp
  have st4: "st4 = st\<lparr>calls := Suc (Suc (calls st)), default_proxy := None\<rparr>"
    using run_command_frame(1) [OF d] by simp
  have e3: "proxy_events ev3 = []"
    by (rule run_command_frame(2) [OF d])
  note f = record_outcome_frame [OF ro]
  from run have "ev = [Log INFO 97 [City l, Country l, ISO l], Log INFO 39 (connect_argv l),
            Exec (connect_argv l), Log INFO 100 [ISO l]] @
           ev2 @ [ProxyRevert, Log INFO 140 [ISO l]] @ ev3 @ ev4" and "st' = st5"
    by (simp_all add: cycle_connected [OF connect] m d ro)
  then show ?thesis
    using e2 e3 f st4 by (simp add: proxy_events_def via_proxy_def)
qed

theorem proxy_reverted_witness:
  "socket_socket (snd (fst (snd (test_and_record_speed sample_env sample_location
      (fresh_writer, sample_state))))) = plain_socket \<and>
   default_proxy (snd (fst (snd (test_and_record_speed sample_env sample_location
      (fresh_writer, sample_state))))) = None"
proof -
  have c: "subprocess sample_env (calls sample_state) (connect_argv sample_location) = Exited 0 []"
    by (simp add: sample_env_def connect_argv_def sample_location_def ADGUARD_CLI_PATH_def)
  obtain ev w' st' res where
    r: "test_and_record_speed sample_env sample_location (fresh_writer, sample_state) =
        (ev, (w', st'), res)"
    by (cases "test_and_record_speed sample_env sample_location (fresh_writer, sample_state)") auto
  from proxy_reverted [OF c r] have "socket_socket st' = plain_socket \<and> default_proxy st' = None"
    by (simp add: sample_state_def initial_state_def)
  with r show ?thesis by simp
qed



lemma run_loop_stops:
  assumes "ISO l \<notin> tested" and "test_and_record_speed env l ws = (ev, ws', Raised e)"
  shows "snd (run_loop env tested (l # rest) ws) = (ws', Raised e)"
  using assms by simp

text \<open>
  C7, as the code has it. When the connect step succeeds and a call of the measurement
  library raises while the client is built, the servers are found, the download and upload
  are measured or the results are taken, nothing is written to the result file and the
  writer is untouched, in every case. The error is logged (line 133) exactly when it is a
  subclass of \<^verbatim>\<open>Exception\<close>; a \<^verbatim>\<open>KeyboardInterrupt\<close> or \<^verbatim>\<open>SystemExit\<close> is not caught by the
  cycle. The cycle returns normally, and the loop goes on with the next location, when the
  error was a subclass of \<^verbatim>\<open>Exception\<close> and the disconnect command of the \<^verbatim>\<open>finally\<close> block
  runs, with any exit status. When that command cannot be run (the binary is missing, the
  call raises or is interrupted) its exception leaves the cycle, and when the measurement
  raised something else than an \<^verbatim>\<open>Exception\<close> that one does; either way the loop stops
  there.
\<close>

theorem no_record_on_measurement_failure:
  assumes connect: "subprocess env (calls st) (connect_argv l) = Exited 0 out"
    and fails: "speedtest env (Suc (calls st)) = Raises s e"
    and run: "test_and_record_speed env l (w, st) = (ev, (w', st'), res)"
  shows "csv_writes ev = [] \<and> w' = w \<and> cwd st' = cwd st \<and>
         (Log ERROR 133 [ISO l] \<in> set ev \<longleftrightarrow> is_Exception e) \<and>
         res = (case subprocess env (Suc (calls st)) disconnect_argv of
                  NotFound \<Rightarrow> Raised (SystemExit 1)
                | Exited rc out' \<Rightarrow> if is_Exception e then Returned else Raised e
                | Failed x \<Rightarrow> Raised (OtherError x)
                | Interrupted \<Rightarrow> Raised KeyboardInterrupt) \<and>
         (ISO l \<notin> tested \<longrightarrow>
            (res = Returned \<longrightarrow>
               snd (run_loop env tested (l # rest) (w, st)) =
               snd (run_loop env tested rest (w', st'))) \<and>
            (\<forall>x. res = Raised x \<longrightarrow>
               snd (run_loop env tested (l # rest) (w, st)) = ((w', st'), Raised x)))"
proof -
  obtain ev2 sr p where m: "try_measure (speedtest env (Suc (calls st))) (ISO l) = (ev2, sr, p)"
    by (cases "try_measure (speedtest env (Suc (calls st))) (ISO l)") auto
  note tm = try_measure_raises [OF m [unfolded fails]]
  have w2: "csv_writes ev2 = []"
    using try_measure_writes [of "speedtest env (Suc (calls st))" "ISO l"] m by simp
  obtain ev3 st4 r where d: "run_command env disconnect_argv False
        (st\<lparr>calls := Suc (calls st), default_proxy := None\<rparr>) = (ev3, st4, r)"
    by (cases "run_command env disconnect_argv False
                 (st\<lparr>calls := Suc (calls st), default_proxy := None\<rparr>)") auto
  have st4: "st4 = st\<lparr>calls := Suc (Suc (calls st)), default_proxy := None\<rparr>"
    using run_command_frame(1) [OF d] by simp
  have w3: "csv_writes ev3 = []"
    by (rule run_command_frame(3) [OF d])
  have r: "r = (case subprocess env (Suc (calls st)) disconnect_argv of
                  NotFound \<Rightarrow> Inl (SystemExit 1)
                | Exited rc out' \<Rightarrow> Inr out'
                | Failed x \<Rightarrow> Inl (OtherError x)
                | Interrupted \<Rightarrow> Inl KeyboardInterrupt)"
    and n3: "Log ERROR 133 [ISO l] \<notin> set ev3"
    using run_command_result [OF d] by simp_all
  have ro: "record_outcome l sr p r (w, st4) =
            ([], (w, st4),
             case r of Inl x \<Rightarrow> Raised x
                     | Inr _ \<Rightarrow> if is_Exception e then Returned else Raised e)"
    using tm(1,2) by (simp add: record_outcome_def split: sum.splits)
  from run have ev: "ev = [Log INFO 97 [City l, Country l, ISO l], Log INFO 39 (connect_argv l),
            Exec (connect_argv l), Log INFO 100 [ISO l]] @
           ev2 @ [ProxyRevert, Log INFO 140 [ISO l]] @ ev3"
    and s: "w' = w" "st' = st4"
      "res = (case r of Inl x \<Rightarrow> Raised x
                      | Inr _ \<Rightarrow> if is_Exception e then Returned else Raised e)"
    by (simp_all add: cycle_connected [OF connect] m d ro)
  have res: "res = (case subprocess env (Suc (calls st)) disconnect_argv of
                  NotFound \<Rightarrow> Raised (SystemExit 1)
                | Exited rc out' \<Rightarrow> if is_Exception e then Returned else Raised e
                | Failed x \<Rightarrow> Raised (OtherError x)
                | Interrupted \<Rightarrow> Raised KeyboardInterrupt)"
    using s(3) r by (simp split: proc_result.splits)
  have logged: "Log ERROR 133 [ISO l] \<in> set ev \<longleftrightarrow> is_Exception e"
    using ev tm(3) n3 by simp
  have writes: "csv_writes ev = []"
    using ev w2 w3 by (simp add: csv_writes_def)
  have files: "cwd st' = cwd st"
    using s st4 by simp
  have loop: "(res = Returned \<longrightarrow>
               snd (run_loop env tested (l # rest) (w, st)) =
               snd (run_loop env tested rest (w', st'))) \<and>
            (\<forall>x. res = Raised x \<longrightarrow>
               snd (run_loop env tested (l # rest) (w, st)) = ((w', st'), Raised x))"
    if "ISO l \<notin> tested"
    using run run_loop_continues [OF that, of env "(w, st)" ev "(w', st')" rest]
          run_loop_stops [OF that, of env "(w, st)" ev "(w', st')" _ rest]
    by auto
  from writes s(1) files logged res loop show ?thesis by blast
qed

theorem no_record_on_measurement_failure_witness:
  "snd (test_and_record_speed sample_env sample_location (fresh_writer, sample_state)) =
     ((fresh_writer, sample_state\<lparr>calls := Suc (Suc 0)\<rparr>), Returned) \<and>
   Log ERROR 133 [''US''] \<in>
     set (fst (test_and_record_speed sample_env sample_location (fresh_writer, sample_state)))"
proof -
  have c: "subprocess sample_env (calls sample_state) (connect_argv sample_location) = Exited 0 []"
    by (simp add: sample_env_def connect_argv_def sample_location_def ADGUARD_CLI_PATH_def)
  have f: "speedtest sample_env (Suc (calls sample_state)) =
           Raises Construct (OtherError ''ConfigRetrievalError'')"
    by (simp add: sample_env_def quiet_env_def)
  have x: "is_Exception (OtherError ''ConfigRetrievalError'')"
    by (simp add: is_Exception_def)
  have d: "subprocess sample_env (Suc (calls sample_state)) disconnect_argv = Exited 0 []"
    by (simp add: sample_env_def disconnect_argv_def ADGUARD_CLI_PATH_def)
  obtain ev w' st' res where
    r: "test_and_record_speed sample_env sample_location (fresh_writer, sample_state) =
        (ev, (w', st'), res)"
    by (cases "test_and_record_speed sample_env sample_location (fresh_writer, sample_state)") auto
  have st: "st' = sample_state\<lparr>calls := Suc (Suc 0)\<rparr>"
    using r
    by (auto simp add: test_and_record_speed_def run_command_def sample_env_def quiet_env_def
          connect_argv_def disconnect_argv_def sample_location_def ADGUARD_CLI_PATH_def
          try_measure_def try_events_def is_Exception_def record_outcome_def sample_state_def
          initial_state_def Let_def)
  from no_record_on_measurement_failure [OF c f r, of "{}" "[]"] d x
  have "res = Returned \<and> w' = fresh_writer \<and> Log ERROR 133 [ISO sample_location] \<in> set ev"
    by simp
  with st r show ?thesis by (simp add: sample_location_def)
qed

theorem no_record_on_measurement_failure_counterexample:
  "Log ERROR 133 [''US''] \<in>
     set (fst (run_loop unplugged_env {} [sample_location, berlin_location]
                 (fresh_writer, sample_state))) \<and>
   snd (snd (run_loop unplugged_env {} [sample_location, berlin_location]
               (fresh_writer, sample_state))) = Raised (OtherError ''OSError'') \<and>
   Exec (connect_argv berlin_location) \<notin>
     set (fst (run_loop unplugged_env {} [sample_location, berlin_location]
                 (fresh_writer, sample_state))) \<and>
   Log ERROR 133 [''US''] \<notin>
     set (fst (test_and_record_speed impatient_env sample_location
                 (fresh_writer, sample_state))) \<and>
   snd (snd (test_and_record_speed impatient_env sample_location
               (fresh_writer, sample_state))) = Raised KeyboardInterrupt"
  by code_simp

section \<open>Properties of the run loop\<close>

lemma run_command_events:
  assumes "run_command env c chk st = (ev, st', r)" and "e \<in> set ev"
  shows "e = Exec c \<or> (\<exists>lv n a. e = Log lv n a \<and> n \<in> {39, 48, 51, 52, 55})"
  using assms
  by (auto simp: run_command_def Let_def split: proc_result.splits if_splits)

lemma try_measure_events:
  assumes "e \<in> set (fst (try_measure m code))"
  shows "e = ProxyInstall \<or> (\<exists>s. e = Speedtest s) \<or>
         (\<exists>lv n a. e = Log lv n a \<and> n \<in> {114, 117, 121, 130, 133})"
proof (cases m)
  case (Measured d)
  with assms show ?thesis by (auto simp: try_measure_def try_events_def)
next
  case (Raises s x)
  with assms show ?thesis
    by (cases s) (auto simp: try_measure_def try_events_def Let_def split: if_splits)
next
  case (Raises_late d x)
  with assms show ?thesis by (auto simp: try_measure_def try_events_def split: if_splits)
qed

lemma record_outcome_events:
  assumes "record_outcome l d p r ws = (ev, ws', out)" and "e \<in> set ev"
  shows "(\<exists>h. e = WriteHeader h) \<or> (\<exists>x y. e = WriteRow x y) \<or> (\<exists>a. e = Log INFO 152 a)"
  using assms
  by (cases ws)
     (auto simp: record_outcome_def write_result_def Let_def
           split: sum.splits option.splits if_splits prod.splits)

lemma cycle_events:
  assumes run: "test_and_record_speed env l (w, st) = (ev, ws', out)" and e: "e \<in> set ev"
  shows "e \<in> {Exec (connect_argv l), Exec disconnect_argv, ProxyInstall, ProxyRevert} \<or>
         (\<exists>s. e = Speedtest s) \<or> (\<exists>h. e = WriteHeader h) \<or> (\<exists>x y. e = WriteRow x y) \<or>
         e = Log INFO 97 [City l, Country l, ISO l] \<or>
         (\<exists>lv n a. e = Log lv n a \<and>
            n \<in> {39, 48, 51, 52, 55, 100, 102, 114, 117, 121, 130, 133, 140, 152})"
proof (cases "\<exists>out'. subprocess env (calls st) (connect_argv l) = Exited 0 out'")
  case False
  with run e show ?thesis
    by (auto simp: test_and_record_speed_def run_command_def Let_def
             split: proc_result.splits if_splits)
next
  case True
  then obtain out' where connect: "subprocess env (calls st) (connect_argv l) = Exited 0 out'" ..
  obtain ev2 sr p where m: "try_measure (speedtest env (Suc (calls st))) (ISO l) = (ev2, sr, p)"
    by (cases "try_measure (speedtest env (Suc (calls st))) (ISO l)") auto
  obtain ev3 st4 r where d: "run_command env disconnect_argv False
        (st\<lparr>calls := Suc (calls st), default_proxy := None\<rparr>) = (ev3, st4, r)"
    by (cases "run_command env disconnect_argv False
                 (st\<lparr>calls := Suc (calls st), default_proxy := None\<rparr>)") auto
  obtain ev4 ws5 out5 where ro: "record_outcome l sr p r (w, st4) = (ev4, ws5, out5)"
    by (cases "record_outcome l sr p r (w, st4)") auto
  from run have "ev = [Log INFO 97 [City l, Country l, ISO l], Log INFO 39 (connect_argv l),
            Exec (connect_argv l), Log INFO 100 [ISO l]] @
           ev2 @ [ProxyRevert, Log INFO 140 [ISO l]] @ ev3 @ ev4"
    by (simp add: cycle_connected [OF connect] m d ro)
  with e consider "e \<in> set [Log INFO 97 [City l, Country l, ISO l], Log INFO 39 (connect_argv l),
            Exec (connect_argv l), Log INFO 100 [ISO l], ProxyRevert, Log INFO 140 [ISO l]]"
    | "e \<in> set ev2" | "e \<in> set ev3" | "e \<in> set ev4"
    by auto
  then show ?thesis
  proof cases
    case 1
    then show ?thesis by auto
  next
    case 2
    with try_measure_events [of e "speedtest env (Suc (calls st))" "ISO l"] m
    have "e = ProxyInstall \<or> (\<exists>s. e = Speedtest s) \<or>
         (\<exists>lv n a. e = Log lv n a \<and> n \<in> {114, 117, 121, 130, 133})" by simp
    then show ?thesis by (elim disjE exE conjE; fastforce)
  next
    case 3
    from run_command_events [OF d 3] show ?thesis by (elim disjE exE conjE; fastforce)
  next
    case 4
    from record_outcome_events [OF ro 4] show ?thesis by (elim disjE exE conjE; fastforce)
  qed
qed

lemma cycle_no_skip_notice:
  assumes "test_and_record_speed env l ws = (ev, ws', out)"
  shows "filter (\<lambda>e. \<forall>a. e \<noteq> Log INFO 215 a) ev = ev"
proof -
  have "\<forall>a. e \<noteq> Log INFO 215 a" if "e \<in> set ev" for e
    using cycle_events [of env l "fst ws" "snd ws" ev ws' out e] assms that by auto
  then show ?thesis by (simp add: filter_id_conv)
qed

lemma cycle_of_other_location:
  assumes "test_and_record_speed env l' ws = (ev, ws', out)" and "ISO l' \<noteq> ISO l"
  shows "Exec (connect_argv l) \<notin> set ev" and "Log INFO 97 [c, k, ISO l] \<notin> set ev"
proof -
  show "Exec (connect_argv l) \<notin> set ev"
    using cycle_events [of env l' "fst ws" "snd ws" ev ws' out "Exec (connect_argv l)"] assms
    by (auto simp: connect_argv_def disconnect_argv_def)
  show "Log INFO 97 [c, k, ISO l] \<notin> set ev"
    using cycle_events [of env l' "fst ws" "snd ws" ev ws' out "Log INFO 97 [c, k, ISO l]"] assms
    by auto
qed

lemma run_loop_skipped:
  assumes "run_loop env tested locs ws = (ev, ws', out)" and "ISO l \<in> tested"
  shows "Exec (connect_argv l) \<notin> set ev \<and> Log INFO 97 [c, k, ISO l] \<notin> set ev"
  using assms(1)
proof (induction locs arbitrary: ws ev ws' out)
  case Nil
  then show ?case by simp
next
  case (Cons x rest)
  show ?case
  proof (cases "ISO x \<in> tested")
    case True
    obtain ev2 ws2 out2 where r: "run_loop env tested rest ws = (ev2, ws2, out2)"
      by (cases "run_loop env tested rest ws") auto
    with Cons.prems True have "ev = Log INFO 215 [City x, ISO x] # ev2" by simp
    with Cons.IH [OF r] show ?thesis by simp
  next
    case False
    then have ne: "ISO x \<noteq> ISO l" using assms(2) by auto
    obtain ev1 ws1 out1 where t: "test_and_record_speed env x ws = (ev1, ws1, out1)"
      by (cases "test_and_record_speed env x ws") auto
    note no = cycle_of_other_location(1) [OF t ne] cycle_of_other_location(2) [OF t ne, of c k]
    show ?thesis
    proof (cases out1)
      case (Raised e)
      with Cons.prems False t have "ev = Log INFO 217 [City x, ISO x] # ev1" by simp
      with no show ?thesis by simp
    next
      case Returned
      obtain ev2 ws2 out2 where r: "run_loop env tested rest ws1 = (ev2, ws2, out2)"
        by (cases "run_loop env tested rest ws1") auto
      with Cons.prems False t Returned
      have "ev = Log INFO 217 [City x, ISO x] # ev1 @ [Flush] @ ev2" by simp
      with no Cons.IH [OF r] show ?thesis by simp
    qed
  qed
qed

lemma run_loop_notices:
  assumes "run_loop env tested locs ws = (ev, ws', Returned)" and "l \<in> set locs"
    and "ISO l \<in> tested"
  shows "Log INFO 215 [City l, ISO l] \<in> set ev"
  using assms(1,2)
proof (induction locs arbitrary: ws ev)
  case Nil
  then show ?case by simp
next
  case (Cons x rest)
  show ?case
  proof (cases "ISO x \<in> tested")
    case True
    obtain ev2 ws2 out2 where r: "run_loop env tested rest ws = (ev2, ws2, out2)"
      by (cases "run_loop env tested rest ws") auto
    with Cons.prems True have ev: "ev = Log INFO 215 [City x, ISO x] # ev2"
      and "ws2 = ws'" "out2 = Returned" by simp_all
    with r Cons.IH [of ws ev2] Cons.prems(2) show ?thesis by auto
  next
    case False
    with assms(3) Cons.prems(2) have l: "l \<in> set rest" by auto
    obtain ev1 ws1 out1 where t: "test_and_record_speed env x ws = (ev1, ws1, out1)"
      by (cases "test_and_record_speed env x ws") auto
    show ?thesis
    proof (cases out1)
      case (Raised e)
      with Cons.prems False t show ?thesis by simp
    next
      case Returned
      obtain ev2 ws2 out2 where r: "run_loop env tested rest ws1 = (ev2, ws2, out2)"
        by (cases "run_loop env tested rest ws1") auto
      with Cons.prems False t Returned
      have "ev = Log INFO 217 [City x, ISO x] # ev1 @ [Flush] @ ev2" "ws2 = ws'" "out2 = Returned"
        by simp_all
      with r Cons.IH [of ws1 ev2] l show ?thesis by auto
    qed
  qed
qed

lemma run_loop_without_tested:
  assumes "run_loop env tested locs ws = (ev, ws', out)"
  shows "run_loop env {} (filter (\<lambda>l. ISO l \<notin> tested) locs) ws =
         (filter (\<lambda>e. \<forall>a. e \<noteq> Log INFO 215 a) ev, ws', out)"
  using assms
proof (induction locs arbitrary: ws ev ws' out)
  case Nil
  then show ?case by simp
next
  case (Cons x rest)
  show ?case
  proof (cases "ISO x \<in> tested")
    case True
    obtain ev2 ws2 out2 where r: "run_loop env tested rest ws = (ev2, ws2, out2)"
      by (cases "run_loop env tested rest ws") auto
    with Cons.prems True have "ev = Log INFO 215 [City x, ISO x] # ev2" "ws2 = ws'" "out2 = out"
      by simp_all
    with Cons.IH [OF r] True show ?thesis by simp
  next
    case False
    obtain ev1 ws1 out1 where t: "test_and_record_speed env x ws = (ev1, ws1, out1)"
      by (cases "test_and_record_speed env x ws") auto
    note keep = cycle_no_skip_notice [OF t]
    show ?thesis
    proof (cases out1)
      case (Raised e)
      with Cons.prems False t keep show ?thesis by auto
    next
      case Returned
      obtain ev2 ws2 out2 where r: "run_loop env tested rest ws1 = (ev2, ws2, out2)"
        by (cases "run_loop env tested rest ws1") auto
      with Cons.prems False t Returned
      have "ev = Log INFO 217 [City x, ISO x] # ev1 @ [Flush] @ ev2" "ws2 = ws'" "out2 = out"
        by simp_all
      with Cons.IH [OF r] False t Returned keep show ?thesis by simp
    qed
  qed
qed

text \<open>
  C4. In a pass over the catalog, a location whose code is in the resume set starts no
  cycle: no connect command is run for its code, no cycle is logged for it, and when the
  pass completes its skip notice is in the log. Apart from the skip notices the pass does
  exactly what a pass with an empty resume set does on the catalog without these
  locations: the same events, the same result file and state, the same outcome.
\<close>

theorem resume_skips:
  assumes "run_loop env tested locs ws = (ev, ws', out)"
  shows "(\<forall>l \<in> set locs. ISO l \<in> tested \<longrightarrow>
            Exec (connect_argv l) \<notin> set ev \<and>
            (\<forall>c k. Log INFO 97 [c, k, ISO l] \<notin> set ev) \<and>
            (out = Returned \<longrightarrow> Log INFO 215 [City l, ISO l] \<in> set ev)) \<and>
         run_loop env {} (filter (\<lambda>l. ISO l \<notin> tested) locs) ws =
           (filter (\<lambda>e. \<forall>a. e \<noteq> Log INFO 215 a) ev, ws', out)"
  using run_loop_skipped [OF assms] run_loop_notices [of env tested locs ws ev ws']
        run_loop_without_tested [OF assms] assms
  by blast

theorem resume_skips_witness:
  "run_loop sample_env {''US''} [sample_location] (fresh_writer, sample_state) =
     ([Log INFO 215 [''New York'', ''US'']], (fresh_writer, sample_state), Returned) \<and>
   Exec (connect_argv sample_location) \<notin>
     set (fst (run_loop sample_env {''US''} [sample_location] (fresh_writer, sample_state)))"
proof -
  have r: "run_loop sample_env {''US''} [sample_location] (fresh_writer, sample_state) =
     ([Log INFO 215 [''New York'', ''US'']], (fresh_writer, sample_state), Returned)"
    by (simp add: sample_location_def)
  have "sample_location \<in> set [sample_location]" "ISO sample_location \<in> {''US''}"
    by (simp_all add: sample_location_def)
  with resume_skips [OF r] r show ?thesis by simp
qed

section \<open>Properties of the result file\<close>

lemma map_of_file_write:
  "map_of (map (\<lambda>(n, f). if n = name then (n, g f) else (n, f)) xs) k =
   (if k = name then map_option g (map_of xs k) else map_of xs k)"
  by (induction xs) auto

lemma file_write_content:
  assumes "exists_file st name"
  shows "file_content (file_write name item st) name = file_content st name @ [item]"
    and "exists_file (file_write name item st) name"
    and "RESULTS_CSV_FILE (file_write name item st) = RESULTS_CSV_FILE st"
  using assms
  by (auto simp: file_write_def file_content_def exists_file_def map_of_file_write
           split: option.splits)

lemma write_result_writes:
  assumes wr: "write_result l d (w, st) = (ev, w', st')"
    and ex: "exists_file st (RESULTS_CSV_FILE st)"
  shows "file_content st' (RESULTS_CSV_FILE st) =
           file_content st (RESULTS_CSV_FILE st) @ map written_item (csv_writes ev)"
    and "exists_file st' (RESULTS_CSV_FILE st')"
    and "\<not> is_new_file w \<Longrightarrow> w' = w \<and> rows_shaped (fieldnames w) (csv_writes ev)"
    and "is_new_file w \<Longrightarrow>
           \<exists>x. csv_writes ev = [WriteHeader (map fst x), WriteRow x (shape (map fst x) x)] \<and>
                w' = w\<lparr>fieldnames := map fst x, is_new_file := False\<rparr>"
  using assms file_write_content [of st "RESULTS_CSV_FILE st"]
        file_write_content
          [of "file_write (RESULTS_CSV_FILE st)
                 (Row (map fst (dict_merge (location_dict l) d))) st" "RESULTS_CSV_FILE st"]
  by (auto simp: write_result_def Let_def csv_writes_def written_item_def rows_shaped_def
           split: if_splits)

lemma record_outcome_cases:
  assumes "record_outcome l d p r (w, st) = (ev, (w', st'), out)"
  obtains (nothing) "ev = []" "w' = w" "st' = st"
        | (wrote) "write_result l d (w, st) = (ev, w', st')"
  using assms
  by (auto simp: record_outcome_def split: sum.splits option.splits if_splits prod.splits)

lemma cycle_cases:
  assumes run: "test_and_record_speed env l (w, st) = (ev, (w', st'), out)"
  obtains (nothing) "csv_writes ev = []" "w' = w" "cwd st' = cwd st"
            "RESULTS_CSV_FILE st' = RESULTS_CSV_FILE st"
        | (wrote) d st4 ev4 where "write_result l d (w, st4) = (ev4, w', st')"
            "cwd st4 = cwd st" "RESULTS_CSV_FILE st4 = RESULTS_CSV_FILE st"
            "csv_writes ev = csv_writes ev4"
proof (cases "\<exists>out'. subprocess env (calls st) (connect_argv l) = Exited 0 out'")
  case False
  with run have "csv_writes ev = [] \<and> w' = w \<and> cwd st' = cwd st \<and>
                 RESULTS_CSV_FILE st' = RESULTS_CSV_FILE st"
    by (auto simp: test_and_record_speed_def run_command_def Let_def csv_writes_def
             split: proc_result.splits if_splits)
  then show ?thesis by (intro that(1)) simp_all
next
  case True
  then obtain out' where connect: "subprocess env (calls st) (connect_argv l) = Exited 0 out'" ..
  obtain ev2 sr p where m: "try_measure (speedtest env (Suc (calls st))) (ISO l) = (ev2, sr, p)"
    by (cases "try_measure (speedtest env (Suc (calls st))) (ISO l)") auto
  obtain ev3 st4 r where d: "run_command env disconnect_argv False
        (st\<lparr>calls := Suc (calls st), default_proxy := None\<rparr>) = (ev3, st4, r)"
    by (cases "run_command env disconnect_argv False
                 (st\<lparr>calls := Suc (calls st), default_proxy := None\<rparr>)") auto
  obtain ev4 w5 st5 out5 where ro: "record_outcome l sr p r (w, st4) = (ev4, (w5, st5), out5)"
    by (cases "record_outcome l sr p r (w, st4)") auto
  have st4: "cwd st4 = cwd st" "RESULTS_CSV_FILE st4 = RESULTS_CSV_FILE st"
    using run_command_frame(1) [OF d] by simp_all
  have w2: "csv_writes ev2 = []"
    using try_measure_writes [of "speedtest env (Suc (calls st))" "ISO l"] m by simp
  have w3: "csv_writes ev3 = []"
    by (rule run_command_frame(3) [OF d])
  from run have "ev = [Log INFO 97 [City l, Country l, ISO l], Log INFO 39 (connect_argv l),
            Exec (connect_argv l), Log INFO 100 [ISO l]] @
           ev2 @ [ProxyRevert, Log INFO 140 [ISO l]] @ ev3 @ ev4" and s: "w' = w5" "st' = st5"
    by (simp_all add: cycle_connected [OF connect] m d ro)
  then have ev: "csv_writes ev = csv_writes ev4"
    using w2 w3 by (simp add: csv_writes_def)
  from ro show ?thesis
  proof (cases rule: record_outcome_cases)
    case nothing
    with ev s st4 show ?thesis by (intro that(1)) (simp_all add: csv_writes_def)
  next
    case wrote
    with ev s st4 show ?thesis by (intro that(2) [of sr st4 ev4]) simp_all
  qed
qed

lemma same_files:
  assumes "cwd a = cwd b"
  shows "file_content a = file_content b" and "exists_file a = exists_file b"
  using assms by (auto simp: file_content_def exists_file_def fun_eq_iff)

lemma cycle_writes:
  assumes run: "test_and_record_speed env l (w, st) = (ev, (w', st'), out)"
    and ex: "exists_file st (RESULTS_CSV_FILE st)"
  shows "RESULTS_CSV_FILE st' = RESULTS_CSV_FILE st"
    and "exists_file st' (RESULTS_CSV_FILE st)"
    and "file_content st' (RESULTS_CSV_FILE st) =
           file_content st (RESULTS_CSV_FILE st) @ map written_item (csv_writes ev)"
    and "\<not> is_new_file w \<Longrightarrow> w' = w \<and> rows_shaped (fieldnames w) (csv_writes ev)"
    and "is_new_file w \<Longrightarrow>
           (csv_writes ev = [] \<and> w' = w) \<or>
           (\<exists>x. csv_writes ev = [WriteHeader (map fst x), WriteRow x (shape (map fst x) x)] \<and>
                w' = w\<lparr>fieldnames := map fst x, is_new_file := False\<rparr>)"
proof -
  have "RESULTS_CSV_FILE st' = RESULTS_CSV_FILE st \<and>
        exists_file st' (RESULTS_CSV_FILE st) \<and>
        file_content st' (RESULTS_CSV_FILE st) =
           file_content st (RESULTS_CSV_FILE st) @ map written_item (csv_writes ev) \<and>
        (\<not> is_new_file w \<longrightarrow> w' = w \<and> rows_shaped (fieldnames w) (csv_writes ev)) \<and>
        (is_new_file w \<longrightarrow>
           (csv_writes ev = [] \<and> w' = w) \<or>
           (\<exists>x. csv_writes ev = [WriteHeader (map fst x), WriteRow x (shape (map fst x) x)] \<and>
                w' = w\<lparr>fieldnames := map fst x, is_new_file := False\<rparr>))"
    using run
  proof (cases rule: cycle_cases)
    case nothing
    note n = this
    from n(3) have "file_content st' = file_content st" "exists_file st' = exists_file st"
      by (rule same_files)+
    with n ex show ?thesis by (simp add: rows_shaped_def)
  next
    case (wrote d st4 ev4)
    note wrote = this
    have ex4: "exists_file st4 (RESULTS_CSV_FILE st4)"
      using ex same_files [OF wrote(2)] wrote(3) by simp
    note wr = write_result_writes [OF wrote(1) ex4] write_result_frame(5) [OF wrote(1)]
    with wrote(3,4) same_files [OF wrote(2)] show ?thesis by auto
  qed
  then show "RESULTS_CSV_FILE st' = RESULTS_CSV_FILE st"
    and "exists_file st' (RESULTS_CSV_FILE st)"
    and "file_content st' (RESULTS_CSV_FILE st) =
           file_content st (RESULTS_CSV_FILE st) @ map written_item (csv_writes ev)"
    and "\<not> is_new_file w \<Longrightarrow> w' = w \<and> rows_shaped (fieldnames w) (csv_writes ev)"
    and "is_new_file w \<Longrightarrow>
           (csv_writes ev = [] \<and> w' = w) \<or>
           (\<exists>x. csv_writes ev = [WriteHeader (map fst x), WriteRow x (shape (map fst x) x)] \<and>
                w' = w\<lparr>fieldnames := map fst x, is_new_file := False\<rparr>)"
    by blast+
qed

lemma run_loop_unfold:
  assumes "run_loop env tested (x # rest) ws = (ev, ws', out)"
  obtains (skipped) ev2 where "ISO x \<in> tested" "run_loop env tested rest ws = (ev2, ws', out)"
            "csv_writes ev = csv_writes ev2"
        | (raised) ev1 e where "test_and_record_speed env x ws = (ev1, ws', Raised e)"
            "out = Raised e" "csv_writes ev = csv_writes ev1"
        | (went_on) ev1 ws1 ev2 where "test_and_record_speed env x ws = (ev1, ws1, Returned)"
            "run_loop env tested rest ws1 = (ev2, ws', out)"
            "csv_writes ev = csv_writes ev1 @ csv_writes ev2"
proof (cases "ISO x \<in> tested")
  case True
  obtain ev2 ws2 out2 where r: "run_loop env tested rest ws = (ev2, ws2, out2)"
    by (cases "run_loop env tested rest ws") auto
  with assms True show ?thesis
    by (intro that(1) [of ev2]) (auto simp: csv_writes_def)
next
  case False
  obtain ev1 ws1 out1 where t: "test_and_record_speed env x ws = (ev1, ws1, out1)"
    by (cases "test_and_record_speed env x ws") auto
  show ?thesis
  proof (cases out1)
    case (Raised e)
    with assms False t show ?thesis
      by (intro that(2) [of ev1 e]) (auto simp: csv_writes_def)
  next
    case Returned
    obtain ev2 ws2 out2 where r: "run_loop env tested rest ws1 = (ev2, ws2, out2)"
      by (cases "run_loop env tested rest ws1") auto
    with assms False t Returned show ?thesis
      by (intro that(3) [of ev1 ws1 ev2]) (auto simp: csv_writes_def)
  qed
qed

lemma run_loop_file:
  assumes "run_loop env tested locs (w, st) = (ev, (w', st'), out)"
    and "exists_file st (RESULTS_CSV_FILE st)"
  shows "file_content st' (RESULTS_CSV_FILE st) =
           file_content st (RESULTS_CSV_FILE st) @ map written_item (csv_writes ev)"
  using assms
proof (induction locs arbitrary: w st ev)
  case Nil
  then show ?case by (simp add: csv_writes_def)
next
  case (Cons x rest)
  from Cons.prems(1) show ?case
  proof (cases rule: run_loop_unfold)
    case (skipped ev2)
    with Cons.IH [OF skipped(2) Cons.prems(2)] show ?thesis by simp
  next
    case (raised ev1 e)
    with cycle_writes(3) [OF raised(1) Cons.prems(2)] show ?thesis by simp
  next
    case (went_on ev1 ws1 ev2)
    obtain w1 st1 where ws1: "ws1 = (w1, st1)" by (cases ws1)
    note c = cycle_writes(1-3) [OF went_on(1) [unfolded ws1] Cons.prems(2)]
    from Cons.IH [OF went_on(2) [unfolded ws1]] c went_on(3) show ?thesis by simp
  qed
qed

lemma run_loop_shaped:
  assumes "run_loop env tested locs (w, st) = (ev, (w', st'), out)"
    and "exists_file st (RESULTS_CSV_FILE st)" and "\<not> is_new_file w"
  shows "w' = w \<and> rows_shaped (fieldnames w) (csv_writes ev)"
  using assms
proof (induction locs arbitrary: w st ev)
  case Nil
  then show ?case by (simp add: csv_writes_def rows_shaped_def)
next
  case (Cons x rest)
  from Cons.prems(1) show ?case
  proof (cases rule: run_loop_unfold)
    case (skipped ev2)
    with Cons.IH [OF skipped(2) Cons.prems(2,3)] show ?thesis by simp
  next
    case (raised ev1 e)
    with cycle_writes(4) [OF raised(1) Cons.prems(2,3)] show ?thesis by simp
  next
    case (went_on ev1 ws1 ev2)
    obtain w1 st1 where ws1: "ws1 = (w1, st1)" by (cases ws1)
    note c = cycle_writes(1,2) [OF went_on(1) [unfolded ws1] Cons.prems(2)]
             cycle_writes(4) [OF went_on(1) [unfolded ws1] Cons.prems(2,3)]
    from c have "w1 = w" and ex1: "exists_file st1 (RESULTS_CSV_FILE st1)" by simp_all
    with Cons.IH [OF went_on(2) [unfolded ws1] ex1] Cons.prems(3) c went_on(3)
    show ?thesis by (auto simp: rows_shaped_def)
  qed
qed

lemma run_loop_first_write:
  assumes "run_loop env tested locs (w, st) = (ev, (w', st'), out)"
    and "exists_file st (RESULTS_CSV_FILE st)" and "is_new_file w"
  shows "csv_writes ev = [] \<or>
         (\<exists>x rest. csv_writes ev = WriteHeader (map fst x) # WriteRow x (shape (map fst x) x) # rest \<and>
                    rows_shaped (map fst x) rest)"
  using assms
proof (induction locs arbitrary: w st ev)
  case Nil
  then show ?case by (simp add: csv_writes_def)
next
  case (Cons x rest)
  from Cons.prems(1) show ?case
  proof (cases rule: run_loop_unfold)
    case (skipped ev2)
    with Cons.IH [OF skipped(2) Cons.prems(2,3)] show ?thesis by simp
  next
    case (raised ev1 e)
    with cycle_writes(5) [OF raised(1) Cons.prems(2,3)] show ?thesis
      by (auto simp: rows_shaped_def)
  next
    case (went_on ev1 ws1 ev2)
    obtain w1 st1 where ws1: "ws1 = (w1, st1)" by (cases ws1)
    note c = cycle_writes(1,2) [OF went_on(1) [unfolded ws1] Cons.prems(2)]
    then have ex1: "exists_file st1 (RESULTS_CSV_FILE st1)" by simp
    from cycle_writes(5) [OF went_on(1) [unfolded ws1] Cons.prems(2,3)]
    show ?thesis
    proof (elim disjE conjE exE)
      assume "csv_writes ev1 = []" "w1 = w"
      with Cons.IH [OF went_on(2) [unfolded ws1] ex1] Cons.prems(3) went_on(3)
      show ?thesis by simp
    next
      fix d assume e1: "csv_writes ev1 = [WriteHeader (map fst d), WriteRow d (shape (map fst d) d)]"
        and w1: "w1 = w\<lparr>fieldnames := map fst d, is_new_file := False\<rparr>"
      then have "\<not> is_new_file w1" "fieldnames w1 = map fst d" by simp_all
      with run_loop_shaped [OF went_on(2) [unfolded ws1] ex1]
      have "rows_shaped (map fst d) (csv_writes ev2)" by simp
      with e1 went_on(3) show ?thesis by simp
    qed
  qed
qed

lemma open_append_file:
  shows "exists_file (open_append env name st) name"
    and "file_content (open_append env name st) name = file_content st name"
    and "RESULTS_CSV_FILE (open_append env name st) = RESULTS_CSV_FILE st"
  by (auto simp: open_append_def exists_file_def file_content_def map_add_def split: option.splits)

lemma missing_file_empty: "\<not> exists_file st name \<Longrightarrow> file_content st name = []"
  by (simp add: exists_file_def file_content_def)

lemma new_file_written:
  "csv_writes (fst (controller measuring_env [sample_location] {} sample_state)) =
     [WriteHeader [''ISO'', ''Country'', ''City'', ''Ping Estimate'', ''download'', ''upload'', ''ping''],
      WriteRow [(''ISO'', ''US''), (''Country'', ''United States''), (''City'', ''New York''),
                (''Ping Estimate'', ''12''), (''download'', ''1''), (''upload'', ''2''), (''ping'', ''3'')]
        [''US'', ''United States'', ''New York'', ''12'', ''1'', ''2'', ''3'']]"
  by code_simp

lemma old_file_written:
  "csv_writes (fst (controller measuring_env [sample_location] {} resumed_state)) =
     [WriteRow [(''ISO'', ''US''), (''Country'', ''United States''), (''City'', ''New York''),
                (''Ping Estimate'', ''12''), (''download'', ''1''), (''upload'', ''2''), (''ping'', ''3'')]
        [''US'', ''1'']]"
  by code_simp

text \<open>
  C8. The result file grows exactly by the lines the run writes, so a header that is there
  is never rewritten. When the file has a first line at open time, that line is the column
  list: no header is written and every record is written as a row shaped to it, the fields
  outside it dropped. When the file is new or empty, either nothing is written, or the
  first write is the header made of the fields of the first record, followed by that record
  and then only by rows shaped to this header. When the first line cannot be read, nothing
  is written.
\<close>

theorem header_stability:
  assumes "controller env locs tested st = (ev, (w', st'), out)"
  shows "file_content st' (RESULTS_CSV_FILE st) =
           file_content st (RESULTS_CSV_FILE st) @ map written_item (csv_writes ev) \<and>
         (case file_content st (RESULTS_CSV_FILE st) of
            Row h # _ \<Rightarrow> rows_shaped h (csv_writes ev) \<and> fieldnames w' = h
          | Unreadable # _ \<Rightarrow> csv_writes ev = []
          | [] \<Rightarrow>
              csv_writes ev = [] \<or>
              (\<exists>x rest. csv_writes ev =
                           WriteHeader (map fst x) # WriteRow x (shape (map fst x) x) # rest \<and>
                         rows_shaped (map fst x) rest))"
proof -
  define name where "name = RESULTS_CSV_FILE st"
  define st1 where "st1 = open_append env name st"
  have ex1: "exists_file st1 (RESULTS_CSV_FILE st1)"
    and c1: "file_content st1 name = file_content st name"
    and n1: "RESULTS_CSV_FILE st1 = name"
    using open_append_file [of env name st] by (simp_all add: st1_def name_def)
  show ?thesis
  proof (cases "file_content st name")
    case Nil
    obtain ev2 where r: "run_loop env tested locs (\<lparr>fieldnames = [], is_new_file = True\<rparr>, st1) =
                          (ev2, (w', st'), out)" and ev: "ev = Log INFO 211 [] # ev2"
      using assms Nil c1
      by (cases "run_loop env tested locs (\<lparr>fieldnames = [], is_new_file = True\<rparr>, st1)")
         (auto simp: controller_def Let_def name_def [symmetric] st1_def [symmetric])
    have w: "csv_writes ev = csv_writes ev2" using ev by (simp add: csv_writes_def)
    from run_loop_file [OF r ex1] run_loop_first_write [OF r ex1] Nil c1 n1 w
    show ?thesis by (simp add: name_def [symmetric])
  next
    case (Cons item items)
    then have old: "exists_file st name" "file_content st name \<noteq> []"
      using missing_file_empty [of st name] by auto
    show ?thesis
    proof (cases item)
      case Unreadable
      with assms Cons old c1 have "ev = []" "st' = st1"
        by (auto simp: controller_def Let_def name_def [symmetric] st1_def [symmetric])
      with Cons Unreadable c1 show ?thesis
        by (simp add: name_def [symmetric] csv_writes_def)
    next
      case (Row h)
      obtain ev2 where r: "run_loop env tested locs (\<lparr>fieldnames = h, is_new_file = False\<rparr>, st1) =
                            (ev2, (w', st'), out)" and ev: "ev = Log INFO 211 [] # ev2"
        using assms Cons Row old c1
        by (cases "run_loop env tested locs (\<lparr>fieldnames = h, is_new_file = False\<rparr>, st1)")
           (auto simp: controller_def Let_def name_def [symmetric] st1_def [symmetric])
      have w: "csv_writes ev = csv_writes ev2" using ev by (simp add: csv_writes_def)
      from run_loop_file [OF r ex1] run_loop_shaped [OF r ex1] Cons Row c1 n1 w
      show ?thesis by (simp add: name_def [symmetric])
    qed
  qed
qed

theorem header_stability_witness:
  "file_content (snd (fst (snd (controller measuring_env [sample_location] {} resumed_state))))
     (RESULTS_CSV_FILE resumed_state) = [Row [''ISO'', ''download''], Row [''US'', ''1'']] \<and>
   file_content (snd (fst (snd (controller measuring_env [sample_location] {} sample_state))))
     (RESULTS_CSV_FILE sample_state) =
     [Row [''ISO'', ''Country'', ''City'', ''Ping Estimate'', ''download'', ''upload'', ''ping''],
      Row [''US'', ''United States'', ''New York'', ''12'', ''1'', ''2'', ''3'']]"
proof -
  obtain ev w' st' out where
    r: "controller measuring_env [sample_location] {} resumed_state = (ev, (w', st'), out)"
    by (cases "controller measuring_env [sample_location] {} resumed_state") auto
  have c: "file_content resumed_state (RESULTS_CSV_FILE resumed_state) = [Row [''ISO'', ''download'']]"
    by code_simp
  have e: "map written_item (csv_writes ev) = [Row [''US'', ''1'']]"
    using old_file_written r by (simp add: written_item_def)
  obtain ev2 w2 st2 out2 where
    r2: "controller measuring_env [sample_location] {} sample_state = (ev2, (w2, st2), out2)"
    by (cases "controller measuring_env [sample_location] {} sample_state") auto
  have c2: "file_content sample_state (RESULTS_CSV_FILE sample_state) = []"
    by code_simp
  have e2: "map written_item (csv_writes ev2) =
     [Row [''ISO'', ''Country'', ''City'', ''Ping Estimate'', ''download'', ''upload'', ''ping''],
      Row [''US'', ''United States'', ''New York'', ''12'', ''1'', ''2'', ''3'']]"
    using new_file_written r2 by (simp add: written_item_def)
  from header_stability [OF r] header_stability [OF r2] c e c2 e2 r r2 show ?thesis
    by simp
qed

section \<open>Properties of the resume set\<close>

lemma map_of_rev_last:
  "map_of (rev xs) k = Some y \<longleftrightarrow>
   (\<exists>i < length xs. xs ! i = (k, y) \<and> (\<forall>j. i < j \<and> j < length xs \<longrightarrow> fst (xs ! j) \<noteq> k))"
proof (induction xs rule: rev_induct)
  case Nil
  then show ?case by simp
next
  case (snoc x xs)
  show ?case
  proof (cases "fst x = k")
    case True
    have "(\<exists>i < length (xs @ [x]). (xs @ [x]) ! i = (k, y) \<and>
            (\<forall>j. i < j \<and> j < length (xs @ [x]) \<longrightarrow> fst ((xs @ [x]) ! j) \<noteq> k)) \<longleftrightarrow> snd x = y"
    proof
      assume "\<exists>i < length (xs @ [x]). (xs @ [x]) ! i = (k, y) \<and>
            (\<forall>j. i < j \<and> j < length (xs @ [x]) \<longrightarrow> fst ((xs @ [x]) ! j) \<noteq> k)"
      then obtain i where i: "i < length (xs @ [x])" "(xs @ [x]) ! i = (k, y)"
        "\<forall>j. i < j \<and> j < length (xs @ [x]) \<longrightarrow> fst ((xs @ [x]) ! j) \<noteq> k" by blast
      have "i = length xs"
      proof (rule ccontr)
        assume "i \<noteq> length xs"
        with i(1) have "i < length xs" by simp
        with i(3) [rule_format, of "length xs"] True show False by simp
      qed
      with i(2) show "snd x = y" by simp
    next
      assume "snd x = y"
      with True have "(xs @ [x]) ! length xs = (k, y)" by (cases x) simp
      then show "\<exists>i < length (xs @ [x]). (xs @ [x]) ! i = (k, y) \<and>
            (\<forall>j. i < j \<and> j < length (xs @ [x]) \<longrightarrow> fst ((xs @ [x]) ! j) \<noteq> k)"
        by (intro exI [of _ "length xs"]) auto
    qed
    with True show ?thesis by (cases x) auto
  next
    case False
    have "(\<exists>i < length (xs @ [x]). (xs @ [x]) ! i = (k, y) \<and>
            (\<forall>j. i < j \<and> j < length (xs @ [x]) \<longrightarrow> fst ((xs @ [x]) ! j) \<noteq> k)) \<longleftrightarrow>
          (\<exists>i < length xs. xs ! i = (k, y) \<and> (\<forall>j. i < j \<and> j < length xs \<longrightarrow> fst (xs ! j) \<noteq> k))"
      (is "?L \<longleftrightarrow> ?R")
    proof
      assume ?L
      then obtain i where i: "i < length (xs @ [x])" "(xs @ [x]) ! i = (k, y)"
        "\<forall>j. i < j \<and> j < length (xs @ [x]) \<longrightarrow> fst ((xs @ [x]) ! j) \<noteq> k" by blast
      have lt: "i < length xs"
      proof (rule ccontr)
        assume "\<not> i < length xs"
        with i(1) have "i = length xs" by simp
        with i(2) False show False by (cases x) simp
      qed
      moreover from i(2) lt have "xs ! i = (k, y)" by (simp add: nth_append)
      moreover have "\<forall>j. i < j \<and> j < length xs \<longrightarrow> fst (xs ! j) \<noteq> k"
      proof (intro allI impI)
        fix j assume j: "i < j \<and> j < length xs"
        with i(3) [rule_format, of j] show "fst (xs ! j) \<noteq> k" by (simp add: nth_append)
      qed
      ultimately show ?R by blast
    next
      assume ?R
      then obtain i where i: "i < length xs" "xs ! i = (k, y)"
        "\<forall>j. i < j \<and> j < length xs \<longrightarrow> fst (xs ! j) \<noteq> k" by blast
      have "\<forall>j. i < j \<and> j < length (xs @ [x]) \<longrightarrow> fst ((xs @ [x]) ! j) \<noteq> k"
      proof (intro allI impI)
        fix j assume j: "i < j \<and> j < length (xs @ [x])"
        show "fst ((xs @ [x]) ! j) \<noteq> k"
        proof (cases "j < length xs")
          case True
          with i(3) j show ?thesis by (simp add: nth_append)
        next
          case False
          with j have "j = length xs" by simp
          with \<open>fst x \<noteq> k\<close> show ?thesis by simp
        qed
      qed
      with i(1,2) show ?L by (intro exI [of _ i]) (simp add: nth_append)
    qed
    with False snoc.IH show ?thesis by (cases x) auto
  qed
qed

lemma row_dict_nth:
  "length (row_dict h r) = length h"
  "i < length h \<Longrightarrow> row_dict h r ! i = (h ! i, if i < length r then Some (r ! i) else None)"
  by (auto simp: row_dict_def nth_append)

lemma iso_of_row_value: "iso_of_row h r = Some v \<longleftrightarrow> iso_value h r v"
proof -
  have "iso_of_row h r = Some v \<longleftrightarrow> v \<noteq> [] \<and> map_of (rev (row_dict h r)) ''ISO'' = Some (Some v)"
    by (auto simp: iso_of_row_def row_get_def split: option.splits)
  also have "\<dots> \<longleftrightarrow> iso_value h r v"
    unfolding map_of_rev_last iso_value_def
    by (auto simp: row_dict_nth split: if_splits)
  finally show ?thesis .
qed

lemma read_rows_values:
  "fst (read_rows h items T) = T \<union> {v. \<exists>r \<in> set (readable_rows items). iso_value h r v}"
proof (induction h items T rule: read_rows.induct)
  case (1 h T)
  show ?case by simp
next
  case (2 h rest T)
  show ?case by simp
next
  case (3 h r rest T)
  have blank: "\<not> iso_value h [] v" for v by (simp add: iso_value_def)
  show ?case
  proof (cases "r = []")
    case True
    with 3 blank show ?thesis by simp
  next
    case False
    show ?thesis
    proof (cases "iso_of_row h r")
      case None
      then have "\<not> iso_value h r v" for v using iso_of_row_value [of h r v] by simp
      with 3 False None show ?thesis by auto
    next
      case (Some x)
      then have "iso_value h r v \<longleftrightarrow> v = x" for v using iso_of_row_value [of h r v] by auto
      with 3 False Some show ?thesis by auto
    qed
  qed
qed

lemma read_tested_values: "fst (read_tested items) = iso_values items"
proof (cases items)
  case Nil
  then show ?thesis by (simp add: read_tested_def iso_values_def)
next
  case (Cons item rest)
  then show ?thesis
    by (cases item) (simp_all add: read_tested_def iso_values_def read_rows_values)
qed

lemma iso_values_not_empty: "[] \<notin> iso_values items"
  by (auto simp: iso_values_def iso_value_def split: list.splits)

lemma skip_notice_tested:
  assumes "run_loop env tested locs ws = (ev, ws', out)" and "Log INFO 215 a \<in> set ev"
  shows "\<exists>l \<in> set locs. ISO l \<in> tested \<and> a = [City l, ISO l]"
  using assms
proof (induction locs arbitrary: ws ev ws' out)
  case Nil
  then show ?case by simp
next
  case (Cons x rest)
  show ?case
  proof (cases "ISO x \<in> tested")
    case True
    obtain ev2 ws2 out2 where r: "run_loop env tested rest ws = (ev2, ws2, out2)"
      by (cases "run_loop env tested rest ws") auto
    with Cons.prems True have "ev = Log INFO 215 [City x, ISO x] # ev2" by simp
    with Cons.IH [OF r] Cons.prems(2) True show ?thesis by auto
  next
    case False
    obtain ev1 ws1 out1 where t: "test_and_record_speed env x ws = (ev1, ws1, out1)"
      by (cases "test_and_record_speed env x ws") auto
    have no: "Log INFO 215 a \<notin> set ev1"
      using cycle_no_skip_notice [OF t] by (metis (mono_tags, lifting) filter_id_conv)
    show ?thesis
    proof (cases out1)
      case (Raised e)
      with Cons.prems False t have "ev = Log INFO 217 [City x, ISO x] # ev1" by simp
      with no Cons.prems(2) show ?thesis by simp
    next
      case Returned
      obtain ev2 ws2 out2 where r: "run_loop env tested rest ws1 = (ev2, ws2, out2)"
        by (cases "run_loop env tested rest ws1") auto
      with Cons.prems False t Returned
      have "ev = Log INFO 217 [City x, ISO x] # ev1 @ [Flush] @ ev2" by simp
      with no Cons.prems(2) Cons.IH [OF r] show ?thesis by auto
    qed
  qed
qed

lemma clean_history_loaded:
  "snd (snd (load_tested_nodes sample_env clean_history_state)) = {''US'', ''DE''}"
  by code_simp

lemma history_loaded:
  "fst (load_tested_nodes sample_env history_state) =
     [Log INFO 83 [''adguard_speedtest_results_20231231_000000.csv''], Log WARNING 92 []]"
  "RESULTS_CSV_FILE (fst (snd (load_tested_nodes sample_env history_state))) =
     ''adguard_speedtest_results_20231231_000000.csv''"
  "snd (snd (load_tested_nodes sample_env history_state)) = {''US''}"
  by code_simp+

text \<open>
  C10. The resume set that \<^verbatim>\<open>load_tested_nodes\<close> returns is empty when there is no earlier
  result file; otherwise it is exactly the set of the non-empty values that the rows of the
  most recently modified result file have under the ISO column, over the rows that can be
  read. A row without that column, or with an empty value there, adds nothing; the empty
  string is never in the set; and a pass over the catalog skips a location only when its
  code is in the set.
\<close>

theorem resume_set_exact:
  assumes "load_tested_nodes env st = (ev, st', tested)"
  shows "(case filter is_result_file (map fst (cwd st)) of
            [] \<Rightarrow> tested = {}
          | f # fs \<Rightarrow> tested = iso_values (file_content st (max_by (getmtime st) f fs))) \<and>
         [] \<notin> tested \<and>
         (\<forall>locs ws a. Log INFO 215 a \<in> set (fst (run_loop env tested locs ws)) \<longrightarrow>
            (\<exists>l \<in> set locs. ISO l \<in> tested \<and> a = [City l, ISO l]))"
proof (intro conjI allI impI)
  show c: "case filter is_result_file (map fst (cwd st)) of
            [] \<Rightarrow> tested = {}
          | f # fs \<Rightarrow> tested = iso_values (file_content st (max_by (getmtime st) f fs))"
  proof (cases "filter is_result_file (map fst (cwd st))")
    case Nil
    with assms show ?thesis by (simp add: load_tested_nodes_def)
  next
    case (Cons f fs)
    obtain T b where rt: "read_tested (file_content st (max_by (getmtime st) f fs)) = (T, b)"
      by (cases "read_tested (file_content st (max_by (getmtime st) f fs))") auto
    with assms Cons have "tested = T" by (simp add: load_tested_nodes_def Let_def)
    moreover have "T = iso_values (file_content st (max_by (getmtime st) f fs))"
      using read_tested_values [of "file_content st (max_by (getmtime st) f fs)"] rt by simp
    ultimately show ?thesis using Cons by simp
  qed
  then show "[] \<notin> tested"
    using iso_values_not_empty by (auto split: list.splits)
  fix locs ws a
  assume "Log INFO 215 a \<in> set (fst (run_loop env tested locs ws))"
  then show "\<exists>l \<in> set locs. ISO l \<in> tested \<and> a = [City l, ISO l]"
    using skip_notice_tested [of env tested locs ws] by (cases "run_loop env tested locs ws") auto
qed

theorem resume_set_exact_witness:
  "iso_values [Row [''ISO'', ''Country''], Row [''US'', ''United States''], Row [],
               Row [[], ''Nowhere''], Row [''DE'']] = {''US'', ''DE''}"
proof -
  obtain ev st' tested where
    r: "load_tested_nodes sample_env clean_history_state = (ev, st', tested)"
    by (cases "load_tested_nodes sample_env clean_history_state") auto
  have t: "tested = {''US'', ''DE''}"
    using clean_history_loaded r by simp
  have f: "filter is_result_file (map fst (cwd clean_history_state)) =
           [''adguard_speedtest_results_20231231_000000.csv'']"
    by code_simp
  have c: "file_content clean_history_state
             (max_by (getmtime clean_history_state)
                ''adguard_speedtest_results_20231231_000000.csv'' []) =
           [Row [''ISO'', ''Country''], Row [''US'', ''United States''], Row [],
            Row [[], ''Nowhere''], Row [''DE'']]"
    by code_simp
  from resume_set_exact [OF r] t f c show ?thesis by simp
qed

text \<open>
  C9, at a file whose third line cannot be read. The newest result file becomes the active
  file and the failure is logged as a warning, as the claim says; but the codes of the rows
  read before the failure stay in the returned set, which is not empty.
\<close>

theorem resume_load_partial:
  "fst (load_tested_nodes sample_env history_state) =
     [Log INFO 83 [''adguard_speedtest_results_20231231_000000.csv''], Log WARNING 92 []] \<and>
   RESULTS_CSV_FILE (fst (snd (load_tested_nodes sample_env history_state))) =
     ''adguard_speedtest_results_20231231_000000.csv'' \<and>
   snd (snd (load_tested_nodes sample_env history_state)) = {''US''} \<and>
   snd (snd (load_tested_nodes sample_env history_state)) \<noteq> {}"
  using history_loaded by simp

section \<open>Properties of the run\<close>

lemma run_command_custody:
  assumes "run_command env c chk st = (ev, st', r)"
  shows "custody st' = custody st"
  using run_command_frame(1) [OF assms] by (simp add: custody_def)

lemma get_locations_custody:
  assumes "get_locations env st = (ev, st', r)"
  shows "custody st' = custody st" and "calls st' = Suc (calls st)"
proof -
  obtain ev1 st1 r1 where c: "run_command env [ADGUARD_CLI_PATH, ''list-locations''] True st = (ev1, st1, r1)"
    by (cases "run_command env [ADGUARD_CLI_PATH, ''list-locations''] True st") auto
  with assms have "st' = st1"
    by (auto simp: get_locations_def Let_def split: sum.splits if_splits)
  with run_command_frame(1) [OF c] show "custody st' = custody st" "calls st' = Suc (calls st)"
    by (simp_all add: custody_def)
qed

lemma load_tested_nodes_custody:
  assumes "load_tested_nodes env st = (ev, st', t)"
  shows "custody st' = custody st" and "calls st' = calls st"
  using assms
  by (auto simp: load_tested_nodes_def Let_def custody_def split: list.splits prod.splits)

lemma write_result_custody:
  assumes "write_result l d (w, st) = (ev, w', st')"
  shows "custody st' = custody st"
  using assms
  by (auto simp: write_result_def Let_def file_write_def custody_def split: if_splits)

lemma cycle_custody:
  assumes run: "test_and_record_speed env l (w, st) = (ev, (w', st'), out)"
  shows "custody st' = custody st"
proof (cases "\<exists>out'. subprocess env (calls st) (connect_argv l) = Exited 0 out'")
  case False
  with run show ?thesis
    by (auto simp: test_and_record_speed_def run_command_def Let_def custody_def
             split: proc_result.splits if_splits)
next
  case True
  then obtain out' where connect: "subprocess env (calls st) (connect_argv l) = Exited 0 out'" ..
  obtain ev2 sr p where m: "try_measure (speedtest env (Suc (calls st))) (ISO l) = (ev2, sr, p)"
    by (cases "try_measure (speedtest env (Suc (calls st))) (ISO l)") auto
  obtain ev3 st4 r where d: "run_command env disconnect_argv False
        (st\<lparr>calls := Suc (calls st), default_proxy := None\<rparr>) = (ev3, st4, r)"
    by (cases "run_command env disconnect_argv False
                 (st\<lparr>calls := Suc (calls st), default_proxy := None\<rparr>)") auto
  obtain ev4 w5 st5 out5 where ro: "record_outcome l sr p r (w, st4) = (ev4, (w5, st5), out5)"
    by (cases "record_outcome l sr p r (w, st4)") auto
  have st4: "custody st4 = custody st"
    using run_command_frame(1) [OF d] by (simp add: custody_def)
  from run have s: "st' = st5"
    by (simp add: cycle_connected [OF connect] m d ro)
  from ro show ?thesis
  proof (cases rule: record_outcome_cases)
    case nothing
    note n = this
    with s st4 show ?thesis by simp
  next
    case wrote
    note n = this
    with write_result_custody [OF n] s st4 show ?thesis by simp
  qed
qed

lemma run_loop_custody:
  assumes "run_loop env tested locs (w, st) = (ev, (w', st'), out)"
  shows "custody st' = custody st"
  using assms
proof (induction locs arbitrary: w st ev)
  case Nil
  then show ?case by simp
next
  case (Cons x rest)
  from Cons.prems(1) show ?case
  proof (cases rule: run_loop_unfold)
    case (skipped ev2)
    with Cons.IH [OF skipped(2)] show ?thesis by simp
  next
    case (raised ev1 e)
    with cycle_custody [OF raised(1)] show ?thesis by simp
  next
    case (went_on ev1 ws1 ev2)
    obtain w1 st1 where ws1: "ws1 = (w1, st1)" by (cases ws1)
    from Cons.IH [OF went_on(2) [unfolded ws1]] cycle_custody [OF went_on(1) [unfolded ws1]]
    show ?thesis by simp
  qed
qed

lemma open_append_custody: "custody (open_append env name st) = custody st"
  by (simp add: open_append_def custody_def)

lemma controller_custody:
  assumes "controller env locs tested st = (ev, (w', st'), out)"
  shows "custody st' = custody st"
proof -
  define st1 where "st1 = open_append env (RESULTS_CSV_FILE st) st"
  have c1: "custody st1 = custody st" by (simp add: st1_def open_append_custody)
  have "st' = st1 \<or> (\<exists>w ev2. run_loop env tested locs (w, st1) = (ev2, (w', st'), out))"
    using assms
    by (auto simp: controller_def Let_def st1_def [symmetric]
             split: if_splits list.splits csv_item.splits prod.splits)
  with c1 run_loop_custody show ?thesis by metis
qed

lemma main_refused:
  assumes "euid env \<noteq> 0 \<or> SUDO_USER env = None \<or> SUDO_USER env = Some [] \<or>
           \<not> is_dir (source_config st)"
    and "main env st = (ev, st', out)"
  shows "out = Raised (SystemExit 1)" and "st' = st" and "Exec c \<notin> set ev"
  using assms by (auto simp: main_def split: option.splits if_splits)

lemma main_admitted:
  assumes "euid env = 0" and "SUDO_USER env = Some u" and "u \<noteq> []"
    and "is_dir (source_config st)"
  shows "main env st =
           (case main_body env u st of
              (ev1, st1, out1) \<Rightarrow>
                (case cleanup env st1 of
                   (ev2, st2, out2) \<Rightarrow> (Log INFO 157 [] # ev1 @ handlers out1 @ ev2, st2, out2)))"
  using assms by (simp add: main_def)

lemma release_result:
  assumes "release st = (ev, st', out)"
  shows "Log INFO 226 [] \<in> set ev"
    and "calls st' = calls st"
    and "out = Returned \<or> out = Raised (OtherError ''rmtree'') \<or> out = Raised (OtherError ''move'')"
    and "\<not> is_file (dest_config st) \<Longrightarrow>
           out = Returned \<and> dest_config st' = dest_backup st \<and> dest_backup st' = None"
  using assms
  by (auto simp: release_def shutil_move_def is_file_def
           split: option.splits node.splits if_splits)

lemma cleanup_result:
  assumes "cleanup env st = (ev, st', out)"
  shows "Log INFO 226 [] \<in> set ev"
    and "subprocess env (calls st) disconnect_argv = NotFound \<Longrightarrow> exit_code out = 1"
    and "\<not> is_file (dest_config st) \<Longrightarrow>
           dest_config st' = dest_backup st \<and> dest_backup st' = None"
    and "\<not> is_file (dest_config st) \<Longrightarrow>
         subprocess env (calls st) disconnect_argv = Exited rc out' \<Longrightarrow>
           out = Returned \<and> Log INFO 236 [] \<in> set ev"
proof -
  obtain ev1 st1 out1 where r: "release st = (ev1, st1, out1)"
    by (cases "release st") auto
  note rr = release_result [OF r]
  obtain ev2 st2 r2 where d: "run_command env disconnect_argv False st1 = (ev2, st2, r2)"
    by (cases "run_command env disconnect_argv False st1") auto
  note f = run_command_frame(1) [OF d]
  have c: "(ev, st', out) =
        (case out1 of
           Raised e \<Rightarrow> (ev1, st1, Raised e)
         | Returned \<Rightarrow>
             (case r2 of
                Inl e \<Rightarrow> (ev1 @ Log INFO 234 [] # ev2, st2, Raised e)
              | Inr _ \<Rightarrow> (ev1 @ Log INFO 234 [] # ev2 @ [Log INFO 236 []], st2, Returned)))"
    using assms r d by (simp add: cleanup_def split: outcome.splits sum.splits)
  show "Log INFO 226 [] \<in> set ev"
    using c rr(1) by (auto split: outcome.splits sum.splits)
  show "exit_code out = 1" if "subprocess env (calls st) disconnect_argv = NotFound"
  proof -
    from that rr(2) d have "r2 = Inl (SystemExit 1)"
      by (simp add: run_command_def)
    with c rr(3) show ?thesis
      by (auto simp: exit_code_def split: outcome.splits)
  qed
  show "dest_config st' = dest_backup st \<and> dest_backup st' = None"
    if "\<not> is_file (dest_config st)"
    using c rr(4) [OF that] f by (auto split: sum.splits)
  show "out = Returned \<and> Log INFO 236 [] \<in> set ev"
    if "\<not> is_file (dest_config st)" and x: "subprocess env (calls st) disconnect_argv = Exited rc out'"
  proof -
    from x rr(2) d have "r2 = Inr out'"
      using run_command_exited [of env st1 disconnect_argv rc out' False] by simp
    with c rr(4) [OF that(1)] show ?thesis by simp
  qed
qed

lemma acquire_result:
  assumes "acquire env u st = (ev, st', out)"
  shows "source_config st' = source_config st" and "calls st' = calls st"
    and "\<not> is_file (dest_config st) \<Longrightarrow> \<not> is_file (dest_config st')"
    and "dest_backup st = None \<Longrightarrow> fault env \<noteq> Some Interrupt_at_start \<Longrightarrow>
           dest_backup st' = dest_config st"
  using assms
  by (auto simp: acquire_def shutil_move_def is_file_def
           split: option.splits node.splits if_splits fault.splits prod.splits)

lemma main_body_custody:
  assumes "main_body env u st = (ev1, st1, out1)"
  shows "\<exists>ev0 st0 out0. acquire env u st = (ev0, st0, out0) \<and> custody st1 = custody st0"
proof -
  obtain ev0 st0 out0 where a: "acquire env u st = (ev0, st0, out0)"
    by (cases "acquire env u st") auto
  have "custody st1 = custody st0"
  proof (cases out0)
    case (Raised e)
    with assms a show ?thesis by (simp add: main_body_def)
  next
    case Returned
    obtain ev2 st2 r2 where
      c: "run_command env [ADGUARD_CLI_PATH, ''config'', ''set-mode'', ''socks''] True st0 =
          (ev2, st2, r2)"
      by (cases "run_command env [ADGUARD_CLI_PATH, ''config'', ''set-mode'', ''socks''] True st0")
         auto
    note c2 = run_command_custody [OF c]
    show ?thesis
    proof (cases r2)
      case (Inl e)
      with assms a Returned c c2 show ?thesis by (simp add: main_body_def)
    next
      case (Inr x)
      obtain ev3 st3 r3 where g: "get_locations env st2 = (ev3, st3, r3)"
        by (cases "get_locations env st2") auto
      note c3 = get_locations_custody(1) [OF g]
      show ?thesis
      proof (cases r3)
        case (Inl e)
        with assms a Returned c Inr g c2 c3 show ?thesis by (simp add: main_body_def)
      next
        case (Inr locs)
        obtain ev4 st4 t where l: "load_tested_nodes env st3 = (ev4, st4, t)"
          by (cases "load_tested_nodes env st3") auto
        note c4 = load_tested_nodes_custody(1) [OF l]
        obtain ev5 w5 st5 out5 where k: "controller env locs t st4 = (ev5, (w5, st5), out5)"
          by (cases "controller env locs t st4") auto
        note c5 = controller_custody [OF k]
        from assms a Returned c \<open>r2 = Inr x\<close> g Inr l k have "st1 = st5"
          by (simp add: main_body_def)
        with c2 c3 c4 c5 show ?thesis by simp
      qed
    qed
  qed
  with a show ?thesis by blast
qed

lemma main_body_dest:
  assumes "main_body env u st = (ev1, st1, out1)"
  shows "\<not> is_file (dest_config st) \<Longrightarrow> \<not> is_file (dest_config st1)"
    and "dest_backup st = None \<Longrightarrow> fault env \<noteq> Some Interrupt_at_start \<Longrightarrow>
           dest_backup st1 = dest_config st"
proof -
  from main_body_custody [OF assms] obtain ev0 st0 out0 where
    a: "acquire env u st = (ev0, st0, out0)" and c: "custody st1 = custody st0" by blast
  from c have e: "dest_config st1 = dest_config st0" "dest_backup st1 = dest_backup st0"
    by (simp_all add: custody_def)
  show "\<not> is_file (dest_config st1)" if "\<not> is_file (dest_config st)"
    using acquire_result(3) [OF a that] e by simp
  show "dest_backup st1 = dest_config st"
    if "dest_backup st = None" "fault env \<noteq> Some Interrupt_at_start"
    using acquire_result(4) [OF a that] e by simp
qed

lemma custody_round_trip:
  assumes "euid env = 0" and "SUDO_USER env = Some u" and "u \<noteq> []"
    and "is_dir (source_config st)"
    and "dest_backup st = None" and "fault env \<noteq> Some Interrupt_at_start"
    and "\<not> is_file (dest_config st)"
    and "main env st = (ev, st', out)"
  shows "dest_config st' = dest_config st \<and> dest_backup st' = None"
proof -
  obtain ev1 st1 out1 where b: "main_body env u st = (ev1, st1, out1)"
    by (cases "main_body env u st") auto
  obtain ev2 st2 out2 where c: "cleanup env st1 = (ev2, st2, out2)"
    by (cases "cleanup env st1") auto
  from assms(8) have "st' = st2"
    by (simp add: main_admitted [OF assms(1-4)] b c)
  with cleanup_result(3) [OF c main_body_dest(1) [OF b assms(7)]]
       main_body_dest(2) [OF b assms(5,6)]
  show ?thesis by simp
qed

lemma complete_run:
  "snd (snd (main_body measuring_env ''alice'' sample_state)) = Returned"
  "calls (fst (snd (main_body measuring_env ''alice'' sample_state))) = 4"
  by code_simp+

text \<open>
  C2, as the code has it. Without root privilege, without an original user, or without the
  user's configuration directory, \<^verbatim>\<open>main\<close> exits with status 1 at once: nothing is changed
  and no command is run. Past these checks the cleanup always runs. If the binary is
  missing, the exit status is 1, reached through the final disconnect of the cleanup. If
  the body of the run completes, is interrupted from the keyboard, or raises an unexpected
  exception (which is logged as critical), and the cleanup itself goes through (the
  destination path was not a plain file, the final disconnect runs), the exit status is 0.
\<close>

theorem exit_codes:
  assumes "main env st = (ev, st', out)"
  shows "(euid env \<noteq> 0 \<or> SUDO_USER env = None \<or> SUDO_USER env = Some [] \<or>
          \<not> is_dir (source_config st) \<longrightarrow>
            exit_code out = 1 \<and> st' = st \<and> (\<forall>c. Exec c \<notin> set ev)) \<and>
         (euid env = 0 \<and> SUDO_USER env = Some u \<and> u \<noteq> [] \<and> is_dir (source_config st) \<longrightarrow>
            Log INFO 226 [] \<in> set ev \<and>
            ((\<forall>n c. subprocess env n c = NotFound) \<longrightarrow> exit_code out = 1) \<and>
            (\<forall>ev1 st1 out1 rc out'.
               main_body env u st = (ev1, st1, out1) \<and>
               (out1 = Returned \<or> out1 = Raised KeyboardInterrupt \<or>
                (\<exists>e. out1 = Raised e \<and> is_Exception e)) \<and>
               \<not> is_file (dest_config st) \<and>
               subprocess env (calls st1) disconnect_argv = Exited rc out' \<longrightarrow>
                 exit_code out = 0 \<and> Log INFO 236 [] \<in> set ev \<and>
                 (\<forall>e. out1 = Raised e \<and> is_Exception e \<longrightarrow> Log CRITICAL 224 [] \<in> set ev)))"
proof (intro conjI impI)
  assume "euid env \<noteq> 0 \<or> SUDO_USER env = None \<or> SUDO_USER env = Some [] \<or>
          \<not> is_dir (source_config st)"
  from main_refused [OF this assms]
  show "exit_code out = 1" "st' = st" "\<forall>c. Exec c \<notin> set ev"
    by (simp_all add: exit_code_def)
next
  assume adm: "euid env = 0 \<and> SUDO_USER env = Some u \<and> u \<noteq> [] \<and> is_dir (source_config st)"
  obtain ev1 st1 out1 where b: "main_body env u st = (ev1, st1, out1)"
    by (cases "main_body env u st") auto
  obtain ev2 st2 out2 where c: "cleanup env st1 = (ev2, st2, out2)"
    by (cases "cleanup env st1") auto
  from assms adm have m: "ev = Log INFO 157 [] # ev1 @ handlers out1 @ ev2" "st' = st2" "out = out2"
    by (simp_all add: main_admitted b c)
  show "Log INFO 226 [] \<in> set ev"
    using m cleanup_result(1) [OF c] by simp
  show "exit_code out = 1" if "\<forall>n c. subprocess env n c = NotFound"
    using m cleanup_result(2) [OF c] that by simp
  show "\<forall>ev1 st1 out1 rc out'.
               main_body env u st = (ev1, st1, out1) \<and>
               (out1 = Returned \<or> out1 = Raised KeyboardInterrupt \<or>
                (\<exists>e. out1 = Raised e \<and> is_Exception e)) \<and>
               \<not> is_file (dest_config st) \<and>
               subprocess env (calls st1) disconnect_argv = Exited rc out' \<longrightarrow>
                 exit_code out = 0 \<and> Log INFO 236 [] \<in> set ev \<and>
                 (\<forall>e. out1 = Raised e \<and> is_Exception e \<longrightarrow> Log CRITICAL 224 [] \<in> set ev)"
  proof (intro allI impI, elim conjE)
    fix ev1' st1' out1' rc out'
    assume b': "main_body env u st = (ev1', st1', out1')"
      and nf: "\<not> is_file (dest_config st)"
      and d: "subprocess env (calls st1') disconnect_argv = Exited rc out'"
    from b b' have eq: "st1' = st1" "out1' = out1" by simp_all
    from cleanup_result(4) [OF c main_body_dest(1) [OF b nf]] d eq
    have "out2 = Returned" "Log INFO 236 [] \<in> set ev2" by simp_all
    with m eq show "exit_code out = 0 \<and> Log INFO 236 [] \<in> set ev \<and>
                 (\<forall>e. out1' = Raised e \<and> is_Exception e \<longrightarrow> Log CRITICAL 224 [] \<in> set ev)"
      by (auto simp: exit_code_def handlers_def)
  qed
qed

theorem exit_codes_witness:
  "exit_code (snd (snd (main measuring_env sample_state))) = 0 \<and>
   exit_code (snd (snd (main (measuring_env\<lparr>euid := 1000\<rparr>) sample_state))) = 1"
proof -
  obtain ev st' out where r: "main measuring_env sample_state = (ev, st', out)"
    by (cases "main measuring_env sample_state") auto
  obtain ev1 st1 out1 where b: "main_body measuring_env ''alice'' sample_state = (ev1, st1, out1)"
    by (cases "main_body measuring_env ''alice'' sample_state") auto
  have adm: "euid measuring_env = 0 \<and> SUDO_USER measuring_env = Some ''alice'' \<and> ''alice'' \<noteq> [] \<and>
             is_dir (source_config sample_state)"
    by code_simp
  have o: "out1 = Returned" "calls st1 = 4"
    using complete_run b by simp_all
  have d: "subprocess measuring_env 4 disconnect_argv = Exited 0 []"
    by code_simp
  have nf: "\<not> is_file (dest_config sample_state)"
    by code_simp
  have d': "subprocess measuring_env (calls st1) disconnect_argv = Exited 0 []"
    using d o(2) by simp
  from exit_codes [OF r, of "''alice''"] adm b o(1) d' nf have one: "exit_code out = 0"
    by blast
  obtain ev2 st2 out2 where
    r2: "main (measuring_env\<lparr>euid := 1000\<rparr>) sample_state = (ev2, st2, out2)"
    by (cases "main (measuring_env\<lparr>euid := 1000\<rparr>) sample_state") auto
  have "euid (measuring_env\<lparr>euid := 1000\<rparr>) \<noteq> 0" by simp
  with exit_codes [OF r2, of "''alice''"] have two: "exit_code out2 = 1" by blast
  from one two r r2 show ?thesis by simp
qed

theorem exit_codes_counterexample:
  "snd (snd (main_body crashing_env ''alice'' sample_state)) =
     Raised (OtherError ''PermissionError'') \<and>
   is_Exception (OtherError ''PermissionError'') \<and>
   Exec (connect_argv sample_location) \<in> set (fst (main crashing_env sample_state)) \<and>
   exit_code (snd (snd (main crashing_env sample_state))) = 0"
  by code_simp

text \<open>
  C1, at a run that is interrupted as soon as its \<^verbatim>\<open>try\<close> block begins. Root's own
  configuration is still at the destination path, nothing has been backed up; the cleanup
  removes what is at the destination path and has nothing to put back, so the
  configuration that was there before the run is gone. And at a run that completes while a
  backup directory was already there and the destination path was free: the cleanup moves
  that directory to the destination path, which was absent before the run.
\<close>

theorem custody_not_restored:
  "dest_config (initial_state interrupted_env (Some home_config) (Some root_config) None []) =
     Some root_config \<and>
   snd (snd (main interrupted_env
     (initial_state interrupted_env (Some home_config) (Some root_config) None []))) = Returned \<and>
   dest_config (fst (snd (main interrupted_env
     (initial_state interrupted_env (Some home_config) (Some root_config) None [])))) = None \<and>
   dest_backup (fst (snd (main interrupted_env
     (initial_state interrupted_env (Some home_config) (Some root_config) None [])))) = None \<and>
   dest_config (initial_state sample_env (Some home_config) None (Some root_config) []) = None \<and>
   snd (snd (main sample_env
     (initial_state sample_env (Some home_config) None (Some root_config) []))) = Returned \<and>
   dest_config (fst (snd (main sample_env
     (initial_state sample_env (Some home_config) None (Some root_config) [])))) = Some root_config"
  by code_simp

end
